theory Spec2Isabelle
  imports Main "HOL-Library.Word"
begin

section \<open>The pull engine of src/ostree/ostree-pull.c\<close>

text \<open>
  A shallow embedding of the pull engine. The collaborators that are not part of the
  file (the repository, the fetcher, the key-file reader, the waitable queues, GLib's
  main loop) appear as data: a queue is the list of its messages, a hash table used as a
  set is a set, the repository is a record of the answers it gives, and
  \<^verbatim>\<open>g_main_loop_quit\<close> sets a flag. A \<^verbatim>\<open>GError\<close> is a value, and a failed
  \<^verbatim>\<open>g_assert\<close> (which aborts the process) is a result of its own.
\<close>

subsection \<open>Object names, messages, errors\<close>

datatype OstreeObjectType =
    OSTREE_OBJECT_TYPE_FILE
  | OSTREE_OBJECT_TYPE_DIR_TREE
  | OSTREE_OBJECT_TYPE_DIR_META
  | OSTREE_OBJECT_TYPE_COMMIT

text \<open>
  Modelled from the spec: the macro \<^verbatim>\<open>OSTREE_OBJECT_TYPE_IS_META\<close> is declared in
  ostree-core.h, which is not among the sources. The spec's data model gives
  \<^verbatim>\<open>IS_META(t) := t in {COMMIT, DIR_TREE, DIR_META}\<close>.
\<close>

definition OSTREE_OBJECT_TYPE_IS_META :: "OstreeObjectType \<Rightarrow> bool" where
  "OSTREE_OBJECT_TYPE_IS_META t =
     (t = OSTREE_OBJECT_TYPE_COMMIT \<or> t = OSTREE_OBJECT_TYPE_DIR_TREE \<or> t = OSTREE_OBJECT_TYPE_DIR_META)"

text \<open>
  A checksum is kept in its hexadecimal form, the key of every hash table of the file;
  \<^verbatim>\<open>ostree_checksum_from_bytes\<close> and \<^verbatim>\<open>ostree_checksum_to_bytes\<close> convert between
  the two forms of one digest and are not modelled. A serialized object name
  (\<^verbatim>\<open>ostree_object_name_serialize\<close>) is the pair of checksum and type.
\<close>

type_synonym checksum = string
type_synonym object_name = "checksum \<times> OstreeObjectType"
type_synonym guint = "32 word"

datatype PullWorkerMessage =
    PULL_MSG_SCAN_IDLE guint
  | PULL_MSG_MAIN_IDLE guint
  | PULL_MSG_FETCH object_name
  | PULL_MSG_SCAN object_name
  | PULL_MSG_QUIT

text \<open>
  Errors: the ones this file sets are all \<^verbatim>\<open>G_IO_ERROR_FAILED\<close> with a message; the
  ones a collaborator reports are opaque.
\<close>

datatype GError =
    G_IO_ERROR_FAILED string
  | G_KEY_FILE_ERROR_KEY_NOT_FOUND
  | G_KEY_FILE_ERROR_GROUP_NOT_FOUND
  | Collaborator_error string

text \<open>
  What a scan returns: \<^verbatim>\<open>TRUE\<close>, \<^verbatim>\<open>FALSE\<close> with the error set, or no return at all
  because an assertion aborted the process.
\<close>

datatype status = OK | Failed GError | Aborted

datatype abort = Assertion_failed string

datatype fetch_callback = Meta_fetch_on_complete | Content_fetch_on_complete

subsection \<open>OtPullData\<close>

text \<open>
  The fields of \<^verbatim>\<open>OtPullData\<close> that the engine reads and writes. A queue pointer is
  \<open>None\<close> while it is \<^verbatim>\<open>NULL\<close>. \<open>fetcher\<close> lists, in order, the object requests
  handed to \<^verbatim>\<open>ostree_fetcher_request_uri_async\<close> with their completion callback, and
  \<open>repo_stage_requests\<close> the objects handed to \<^verbatim>\<open>ostree_repo_stage_metadata_async\<close> and
  \<^verbatim>\<open>ostree_repo_stage_content_async\<close>. \<open>loop_quit\<close> says that \<^verbatim>\<open>g_main_loop_quit\<close>
  was called on \<^verbatim>\<open>pull_data->loop\<close> since the loop was started, and
  \<open>metadata_thread_loop_quit\<close> the same of the scanner thread's loop.
\<close>

record OtPullData =
  fetcher :: "(fetch_callback \<times> object_name) list"
  repo_stage_requests :: "object_name list"
  loop_quit :: bool
  metadata_thread_loop_quit :: bool
  n_scanned_metadata :: guint
  outstanding_uri_requests :: guint
  metadata_objects_to_scan :: "PullWorkerMessage list option"
  metadata_objects_to_fetch :: "PullWorkerMessage list option"
  scanned_metadata :: "object_name set"
  requested_metadata :: "checksum set"
  requested_content :: "checksum set"
  metadata_scan_idle :: bool
  idle_serial :: guint
  n_outstanding_metadata_fetches :: guint
  n_outstanding_metadata_stage_requests :: guint
  n_outstanding_content_fetches :: guint
  n_outstanding_content_stage_requests :: guint
  n_requested_metadata :: guint
  n_requested_content :: guint
  n_fetched_metadata :: guint
  n_fetched_content :: guint
  async_error :: "GError option"
  caught_error :: bool

text \<open>\<^verbatim>\<open>ot_waitable_queue_push\<close> appends; \<^verbatim>\<open>ot_waitable_queue_pop\<close> takes the oldest message.\<close>

definition ot_waitable_queue_push ::
  "PullWorkerMessage list option \<Rightarrow> PullWorkerMessage \<Rightarrow> PullWorkerMessage list option" where
  "ot_waitable_queue_push queue msg = map_option (\<lambda>q. q @ [msg]) queue"

definition ot_waitable_queue_pop ::
  "PullWorkerMessage list option \<Rightarrow> (PullWorkerMessage \<times> PullWorkerMessage list option) option" where
  "ot_waitable_queue_pop queue =
     (case queue of
        None \<Rightarrow> None
      | Some [] \<Rightarrow> None
      | Some (msg # rest) \<Rightarrow> Some (msg, Some rest))"

subsection \<open>The dispatcher on the main loop\<close>

definition throw_async_error :: "OtPullData \<Rightarrow> GError option \<Rightarrow> OtPullData" where
  "throw_async_error pull_data error =
     (case error of
        None \<Rightarrow> pull_data
      | Some e \<Rightarrow>
          if \<not> caught_error pull_data
          then pull_data\<lparr>caught_error := True, async_error := Some e, loop_quit := True\<rparr>
          else pull_data)"

definition check_outstanding_requests_handle_error ::
  "OtPullData \<Rightarrow> GError option \<Rightarrow> OtPullData" where
  "check_outstanding_requests_handle_error pull_data error =
     (let current_fetch_idle =
            (n_outstanding_metadata_fetches pull_data = 0 \<and>
             n_outstanding_content_fetches pull_data = 0);
          current_stage_idle =
            (n_outstanding_metadata_stage_requests pull_data = 0 \<and>
             n_outstanding_content_stage_requests pull_data = 0);
          pull_data = throw_async_error pull_data error
      in if metadata_objects_to_scan pull_data = None
         then (if outstanding_uri_requests pull_data = 0
               then pull_data\<lparr>loop_quit := True\<rparr>
               else pull_data)
         else if metadata_scan_idle pull_data \<and> current_fetch_idle \<and> current_stage_idle
         then pull_data\<lparr>loop_quit := True\<rparr>
         else pull_data)"

definition idle_check_outstanding_requests :: "OtPullData \<Rightarrow> OtPullData" where
  "idle_check_outstanding_requests pull_data =
     check_outstanding_requests_handle_error pull_data None"

text \<open>
  The body of \<^verbatim>\<open>on_metadata_objects_to_fetch_ready\<close> for the message it popped: the
  chain of tests on \<^verbatim>\<open>msg->t\<close>.
\<close>

definition fetch_ready_message :: "OtPullData \<Rightarrow> PullWorkerMessage \<Rightarrow> abort + OtPullData" where
  "fetch_ready_message pull_data msg =
     (case msg of
        PULL_MSG_MAIN_IDLE serial \<Rightarrow>
          if serial = idle_serial pull_data
          then (if metadata_scan_idle pull_data
                then Inl (Assertion_failed ''!pull_data->metadata_scan_idle'')
                else Inr (pull_data\<lparr>metadata_scan_idle := True\<rparr>))
          else Inr pull_data
      | PULL_MSG_SCAN_IDLE serial \<Rightarrow>
          if \<not> metadata_scan_idle pull_data
          then Inr (pull_data
                 \<lparr>idle_serial := idle_serial pull_data + 1,
                  metadata_objects_to_scan :=
                    ot_waitable_queue_push (metadata_objects_to_scan pull_data)
                      (PULL_MSG_MAIN_IDLE (idle_serial pull_data + 1))\<rparr>)
          else Inr pull_data
      | PULL_MSG_FETCH item \<Rightarrow>
          (let is_meta = OSTREE_OBJECT_TYPE_IS_META (snd item);
               pull_data =
                 (if is_meta
                  then pull_data
                    \<lparr>n_outstanding_metadata_fetches := n_outstanding_metadata_fetches pull_data + 1,
                     n_requested_metadata := n_requested_metadata pull_data + 1\<rparr>
                  else pull_data
                    \<lparr>n_outstanding_content_fetches := n_outstanding_content_fetches pull_data + 1,
                     n_requested_content := n_requested_content pull_data + 1\<rparr>)
           in Inr (pull_data
                \<lparr>fetcher := fetcher pull_data @
                   [(if is_meta then Meta_fetch_on_complete else Content_fetch_on_complete, item)]\<rparr>))
      | PULL_MSG_SCAN item \<Rightarrow> Inl (Assertion_failed ''not reached'')
      | PULL_MSG_QUIT \<Rightarrow> Inl (Assertion_failed ''not reached''))"

definition on_metadata_objects_to_fetch_ready :: "OtPullData \<Rightarrow> abort + OtPullData" where
  "on_metadata_objects_to_fetch_ready pull_data =
     (case ot_waitable_queue_pop (metadata_objects_to_fetch pull_data) of
        None \<Rightarrow> Inr (check_outstanding_requests_handle_error pull_data None)
      | Some (msg, rest) \<Rightarrow>
          (case fetch_ready_message (pull_data\<lparr>metadata_objects_to_fetch := rest\<rparr>) msg of
             Inl a \<Rightarrow> Inl a
           | Inr pull_data \<Rightarrow> Inr (check_outstanding_requests_handle_error pull_data None)))"

text \<open>
  The end of the wait: \<^verbatim>\<open>run_mainloop_monitor_fetcher\<close> returns once the loop was
  told to quit, and returns \<^verbatim>\<open>!pull_data->caught_error\<close>.
\<close>

definition loop_quits_with_success :: "OtPullData \<Rightarrow> bool" where
  "loop_quits_with_success pull_data = (loop_quit pull_data \<and> \<not> caught_error pull_data)"

definition all_outstanding_zero :: "OtPullData \<Rightarrow> bool" where
  "all_outstanding_zero pull_data =
     (n_outstanding_metadata_fetches pull_data = 0 \<and>
      n_outstanding_content_fetches pull_data = 0 \<and>
      n_outstanding_metadata_stage_requests pull_data = 0 \<and>
      n_outstanding_content_stage_requests pull_data = 0)"

subsection \<open>Completion callbacks on the main loop\<close>

text \<open>
  Each callback takes what the finished operation reports: the fetcher a temporary path
  or an error, the parsers of the fetched file an error or none, the repository the
  checksum it computed while staging or an error. Unlinking the temporary file is not
  modelled.
\<close>

definition meta_fetch_on_complete ::
  "OtPullData \<Rightarrow> object_name \<Rightarrow> GError + string \<Rightarrow> GError option \<Rightarrow> OtPullData" where
  "meta_fetch_on_complete pull_data object fetch_result map_result =
     (let local_error =
            (case fetch_result of Inl e \<Rightarrow> Some e | Inr temp_path \<Rightarrow> map_result);
          pull_data =
            (if local_error = None
             then pull_data
               \<lparr>repo_stage_requests := repo_stage_requests pull_data @ [object],
                n_outstanding_metadata_stage_requests :=
                  n_outstanding_metadata_stage_requests pull_data + 1\<rparr>
             else pull_data);
          pull_data = pull_data
            \<lparr>n_outstanding_metadata_fetches := n_outstanding_metadata_fetches pull_data - 1,
             n_fetched_metadata := n_fetched_metadata pull_data + 1\<rparr>
      in throw_async_error pull_data local_error)"

definition content_fetch_on_complete ::
  "OtPullData \<Rightarrow> object_name \<Rightarrow> GError + string \<Rightarrow> GError option \<Rightarrow> abort + OtPullData" where
  "content_fetch_on_complete pull_data object fetch_result parse_result =
     (case fetch_result of
        Inl e \<Rightarrow>
          Inr (check_outstanding_requests_handle_error
                 (pull_data\<lparr>n_outstanding_content_fetches :=
                    n_outstanding_content_fetches pull_data - 1\<rparr>) (Some e))
      | Inr temp_path \<Rightarrow>
          if snd object \<noteq> OSTREE_OBJECT_TYPE_FILE
          then Inl (Assertion_failed ''objtype == OSTREE_OBJECT_TYPE_FILE'')
          else
            let pull_data =
                  (if parse_result = None
                   then pull_data
                     \<lparr>n_outstanding_content_stage_requests :=
                        n_outstanding_content_stage_requests pull_data + 1,
                      repo_stage_requests := repo_stage_requests pull_data @ [object]\<rparr>
                   else pull_data)
            in Inr (check_outstanding_requests_handle_error
                      (pull_data\<lparr>n_outstanding_content_fetches :=
                         n_outstanding_content_fetches pull_data - 1\<rparr>) parse_result))"

definition on_metadata_staged ::
  "OtPullData \<Rightarrow> object_name \<Rightarrow> GError + checksum \<Rightarrow> abort + OtPullData" where
  "on_metadata_staged pull_data object stage_result =
     (case stage_result of
        Inl e \<Rightarrow>
          Inr (check_outstanding_requests_handle_error
                 (pull_data\<lparr>n_outstanding_metadata_stage_requests :=
                    n_outstanding_metadata_stage_requests pull_data - 1\<rparr>) (Some e))
      | Inr checksum \<Rightarrow>
          if \<not> OSTREE_OBJECT_TYPE_IS_META (snd object)
          then Inl (Assertion_failed ''OSTREE_OBJECT_TYPE_IS_META (objtype)'')
          else if checksum \<noteq> fst object
          then Inl (Assertion_failed ''strcmp (checksum, expected_checksum) == 0'')
          else
            let pull_data = pull_data
                  \<lparr>metadata_scan_idle := False,
                   metadata_objects_to_scan :=
                     ot_waitable_queue_push (metadata_objects_to_scan pull_data)
                       (PULL_MSG_SCAN object)\<rparr>
            in Inr (check_outstanding_requests_handle_error
                      (pull_data\<lparr>n_outstanding_metadata_stage_requests :=
                         n_outstanding_metadata_stage_requests pull_data - 1\<rparr>) None))"

definition content_fetch_on_stage_complete ::
  "OtPullData \<Rightarrow> object_name \<Rightarrow> GError + checksum \<Rightarrow> abort + OtPullData" where
  "content_fetch_on_stage_complete pull_data object stage_result =
     (case stage_result of
        Inl e \<Rightarrow>
          Inr (check_outstanding_requests_handle_error
                 (pull_data\<lparr>n_outstanding_content_stage_requests :=
                    n_outstanding_content_stage_requests pull_data - 1\<rparr>) (Some e))
      | Inr checksum \<Rightarrow>
          if snd object \<noteq> OSTREE_OBJECT_TYPE_FILE
          then Inl (Assertion_failed ''objtype == OSTREE_OBJECT_TYPE_FILE'')
          else if checksum \<noteq> fst object
          then Inl (Assertion_failed ''strcmp (checksum, expected_checksum) == 0'')
          else
            let pull_data = pull_data\<lparr>n_fetched_content := n_fetched_content pull_data + 1\<rparr>
            in Inr (check_outstanding_requests_handle_error
                      (pull_data\<lparr>n_outstanding_content_stage_requests :=
                         n_outstanding_content_stage_requests pull_data - 1\<rparr>) None))"

definition idle_throw_error :: "OtPullData \<Rightarrow> GError \<Rightarrow> OtPullData" where
  "idle_throw_error pull_data error = throw_async_error pull_data (Some error)"

text \<open>
  Everything GLib runs on the main loop while \<^verbatim>\<open>run_mainloop_monitor_fetcher\<close> waits for
  the pull: the source of the fetch queue, the completions of the fetcher and of the
  repository, the error a scan threw, and the idle check.
\<close>

datatype main_loop_event =
    Fetch_queue_ready
  | Meta_fetched object_name "GError + string" "GError option"
  | Content_fetched object_name "GError + string" "GError option"
  | Metadata_staged object_name "GError + checksum"
  | Content_staged object_name "GError + checksum"
  | Scan_threw GError
  | Idle_check

definition main_loop_dispatch :: "OtPullData \<Rightarrow> main_loop_event \<Rightarrow> abort + OtPullData" where
  "main_loop_dispatch pull_data ev =
     (case ev of
        Fetch_queue_ready \<Rightarrow> on_metadata_objects_to_fetch_ready pull_data
      | Meta_fetched object r m \<Rightarrow> Inr (meta_fetch_on_complete pull_data object r m)
      | Content_fetched object r m \<Rightarrow> content_fetch_on_complete pull_data object r m
      | Metadata_staged object r \<Rightarrow> on_metadata_staged pull_data object r
      | Content_staged object r \<Rightarrow> content_fetch_on_stage_complete pull_data object r
      | Scan_threw e \<Rightarrow> Inr (idle_throw_error pull_data e)
      | Idle_check \<Rightarrow> Inr (idle_check_outstanding_requests pull_data))"

subsection \<open>The repository as the scanner reads it\<close>

text \<open>
  The two metadata variants the scanner parses: of a commit the children 2, 6 and 7
  (related objects, root tree contents, root tree metadata), of a directory tree the
  children 0 and 1 (files, subdirectories).
\<close>

record commit_variant =
  commit_related :: "(string \<times> checksum) list"
  commit_tree_contents_csum :: checksum
  commit_tree_meta_csum :: checksum

record dirtree_variant =
  tree_files :: "(string \<times> checksum) list"
  tree_dirs :: "(string \<times> checksum \<times> checksum) list"

text \<open>
  The repository is a collaborator: the record holds its answers to
  \<^verbatim>\<open>ostree_repo_has_object\<close> and to \<^verbatim>\<open>ostree_repo_load_variant\<close> for the two types
  the scanner loads, each of which may be an error.
\<close>

record OstreeRepo =
  ostree_repo_has_object :: "OstreeObjectType \<Rightarrow> checksum \<Rightarrow> GError + bool"
  ostree_repo_load_commit :: "checksum \<Rightarrow> GError + commit_variant"
  ostree_repo_load_dirtree :: "checksum \<Rightarrow> GError + dirtree_variant"

text \<open>
  Modelled from the spec: the macro \<^verbatim>\<open>OSTREE_MAX_RECURSION\<close> is defined in ostree-core.h,
  which is not among the sources; the spec gives the bound as 256.
\<close>

definition OSTREE_MAX_RECURSION :: int where
  "OSTREE_MAX_RECURSION = 256"

text \<open>
  Modelled from the spec: \<^verbatim>\<open>ot_util_filename_validate\<close> is a helper of libotutil, not
  among the sources. The spec's data model: a file name has no slash and is neither
  \<^verbatim>\<open>.\<close> nor \<^verbatim>\<open>..\<close> (a C string holds no NUL).
\<close>

definition ot_util_filename_validate :: "string \<Rightarrow> bool" where
  "ot_util_filename_validate name =
     (name \<noteq> ''.'' \<and> name \<noteq> ''..'' \<and> CHR ''/'' \<notin> set name)"

subsection \<open>The scanner\<close>

text \<open>The end of the \<^verbatim>\<open>is_stored\<close> branch of \<^verbatim>\<open>scan_one_metadata_object\<close>.\<close>

definition mark_scanned :: "OtPullData \<Rightarrow> object_name \<Rightarrow> OtPullData" where
  "mark_scanned pull_data object =
     pull_data\<lparr>scanned_metadata := insert object (scanned_metadata pull_data),
               n_scanned_metadata := n_scanned_metadata pull_data + 1\<rparr>"

text \<open>
  The first loop of \<^verbatim>\<open>scan_dirtree_object\<close>, over the files of the tree. The loops over
  subdirectories and over related commits call \<^verbatim>\<open>scan_one_metadata_object\<close> with
  \<^verbatim>\<open>recursion_depth + 1\<close>, which they receive as \<open>depth1\<close>. The parameter of
  \<^verbatim>\<open>scan_dirtree_object\<close> is an \<^verbatim>\<open>int\<close>, so its test reads the word as signed; the one
  of \<^verbatim>\<open>scan_commit_object\<close> is a \<^verbatim>\<open>guint\<close>.
\<close>

fun scan_dirtree_files ::
  "OstreeRepo \<Rightarrow> OtPullData \<Rightarrow> (string \<times> checksum) list \<Rightarrow> status \<times> OtPullData" where
  "scan_dirtree_files repo pull_data [] = (OK, pull_data)"
| "scan_dirtree_files repo pull_data ((filename, file_checksum) # rest) =
     (if \<not> ot_util_filename_validate filename
      then (Failed (Collaborator_error ''Invalid filename''), pull_data)
      else case ostree_repo_has_object repo OSTREE_OBJECT_TYPE_FILE file_checksum of
             Inl e \<Rightarrow> (Failed e, pull_data)
           | Inr file_is_stored \<Rightarrow>
               scan_dirtree_files repo
                 (if \<not> file_is_stored \<and> file_checksum \<notin> requested_content pull_data
                  then pull_data
                    \<lparr>requested_content := insert file_checksum (requested_content pull_data),
                     metadata_objects_to_fetch :=
                       ot_waitable_queue_push (metadata_objects_to_fetch pull_data)
                         (PULL_MSG_FETCH (file_checksum, OSTREE_OBJECT_TYPE_FILE))\<rparr>
                  else pull_data)
                 rest)"

function (sequential)
  scan_one_metadata_object ::
    "OstreeRepo \<Rightarrow> bool \<Rightarrow> OtPullData \<Rightarrow> checksum \<Rightarrow> OstreeObjectType \<Rightarrow> guint \<Rightarrow> status \<times> OtPullData"
and scan_commit_object ::
    "OstreeRepo \<Rightarrow> bool \<Rightarrow> OtPullData \<Rightarrow> checksum \<Rightarrow> guint \<Rightarrow> status \<times> OtPullData"
and scan_commit_related ::
    "OstreeRepo \<Rightarrow> bool \<Rightarrow> OtPullData \<Rightarrow> (string \<times> checksum) list \<Rightarrow> guint \<Rightarrow> status \<times> OtPullData"
and scan_dirtree_object ::
    "OstreeRepo \<Rightarrow> bool \<Rightarrow> OtPullData \<Rightarrow> checksum \<Rightarrow> guint \<Rightarrow> status \<times> OtPullData"
and scan_dirtree_dirs ::
    "OstreeRepo \<Rightarrow> bool \<Rightarrow> OtPullData \<Rightarrow> (string \<times> checksum \<times> checksum) list \<Rightarrow> guint \<Rightarrow> status \<times> OtPullData"
where
  "scan_one_metadata_object repo opt_related pull_data csum objtype recursion_depth =
     (if (csum, objtype) \<in> scanned_metadata pull_data then (OK, pull_data)
      else
        let is_requested = (csum \<in> requested_metadata pull_data) in
        case ostree_repo_has_object repo objtype csum of
          Inl e \<Rightarrow> (Failed e, pull_data)
        | Inr is_stored \<Rightarrow>
            if \<not> is_stored \<and> \<not> is_requested
            then (OK, pull_data
                   \<lparr>requested_metadata := insert csum (requested_metadata pull_data),
                    metadata_objects_to_fetch :=
                      ot_waitable_queue_push (metadata_objects_to_fetch pull_data)
                        (PULL_MSG_FETCH (csum, objtype))\<rparr>)
            else if is_stored
            then (case objtype of
                    OSTREE_OBJECT_TYPE_COMMIT \<Rightarrow>
                      (case scan_commit_object repo opt_related pull_data csum recursion_depth of
                         (OK, pull_data) \<Rightarrow> (OK, mark_scanned pull_data (csum, objtype))
                       | (Failed e, pull_data) \<Rightarrow> (Failed e, pull_data)
                       | (Aborted, pull_data) \<Rightarrow> (Aborted, pull_data))
                  | OSTREE_OBJECT_TYPE_DIR_META \<Rightarrow> (OK, mark_scanned pull_data (csum, objtype))
                  | OSTREE_OBJECT_TYPE_DIR_TREE \<Rightarrow>
                      (case scan_dirtree_object repo opt_related pull_data csum recursion_depth of
                         (OK, pull_data) \<Rightarrow> (OK, mark_scanned pull_data (csum, objtype))
                       | (Failed e, pull_data) \<Rightarrow> (Failed e, pull_data)
                       | (Aborted, pull_data) \<Rightarrow> (Aborted, pull_data))
                  | OSTREE_OBJECT_TYPE_FILE \<Rightarrow> (Aborted, pull_data))
            else (OK, pull_data))"
| "scan_commit_object repo opt_related pull_data checksum recursion_depth =
     (if OSTREE_MAX_RECURSION < uint recursion_depth
      then (Failed (G_IO_ERROR_FAILED ''Exceeded maximum recursion''), pull_data)
      else case ostree_repo_load_commit repo checksum of
        Inl e \<Rightarrow> (Failed e, pull_data)
      | Inr commit \<Rightarrow>
          (case scan_one_metadata_object repo opt_related pull_data
                  (commit_tree_contents_csum commit) OSTREE_OBJECT_TYPE_DIR_TREE (recursion_depth + 1) of
             (OK, pull_data) \<Rightarrow>
               (case scan_one_metadata_object repo opt_related pull_data
                       (commit_tree_meta_csum commit) OSTREE_OBJECT_TYPE_DIR_META (recursion_depth + 1) of
                  (OK, pull_data) \<Rightarrow>
                    if opt_related
                    then scan_commit_related repo opt_related pull_data
                           (commit_related commit) (recursion_depth + 1)
                    else (OK, pull_data)
                | (Failed e, pull_data) \<Rightarrow> (Failed e, pull_data)
                | (Aborted, pull_data) \<Rightarrow> (Aborted, pull_data))
           | (Failed e, pull_data) \<Rightarrow> (Failed e, pull_data)
           | (Aborted, pull_data) \<Rightarrow> (Aborted, pull_data)))"
| "scan_commit_related repo opt_related pull_data [] depth1 = (OK, pull_data)"
| "scan_commit_related repo opt_related pull_data ((name, csum_v) # rest) depth1 =
     (case scan_one_metadata_object repo opt_related pull_data csum_v OSTREE_OBJECT_TYPE_COMMIT depth1 of
        (OK, pull_data) \<Rightarrow> scan_commit_related repo opt_related pull_data rest depth1
      | (Failed e, pull_data) \<Rightarrow> (Failed e, pull_data)
      | (Aborted, pull_data) \<Rightarrow> (Aborted, pull_data))"
| "scan_dirtree_object repo opt_related pull_data checksum recursion_depth =
     (if OSTREE_MAX_RECURSION < sint recursion_depth
      then (Failed (G_IO_ERROR_FAILED ''Exceeded maximum recursion''), pull_data)
      else case ostree_repo_load_dirtree repo checksum of
        Inl e \<Rightarrow> (Failed e, pull_data)
      | Inr tree \<Rightarrow>
          (case scan_dirtree_files repo pull_data (tree_files tree) of
             (OK, pull_data) \<Rightarrow>
               scan_dirtree_dirs repo opt_related pull_data (tree_dirs tree) (recursion_depth + 1)
           | (Failed e, pull_data) \<Rightarrow> (Failed e, pull_data)
           | (Aborted, pull_data) \<Rightarrow> (Aborted, pull_data)))"
| "scan_dirtree_dirs repo opt_related pull_data [] depth1 = (OK, pull_data)"
| "scan_dirtree_dirs repo opt_related pull_data ((dirname, tree_csum, meta_csum) # rest) depth1 =
     (if \<not> ot_util_filename_validate dirname
      then (Failed (Collaborator_error ''Invalid filename''), pull_data)
      else case scan_one_metadata_object repo opt_related pull_data tree_csum OSTREE_OBJECT_TYPE_DIR_TREE depth1 of
        (OK, pull_data) \<Rightarrow>
          (case scan_one_metadata_object repo opt_related pull_data meta_csum OSTREE_OBJECT_TYPE_DIR_META depth1 of
             (OK, pull_data) \<Rightarrow> scan_dirtree_dirs repo opt_related pull_data rest depth1
           | (Failed e, pull_data) \<Rightarrow> (Failed e, pull_data)
           | (Aborted, pull_data) \<Rightarrow> (Aborted, pull_data))
      | (Failed e, pull_data) \<Rightarrow> (Failed e, pull_data)
      | (Aborted, pull_data) \<Rightarrow> (Aborted, pull_data))"
  by pat_completeness auto

termination
proof -
  have succ: "sint (d + 1) = sint d + 1" if "sint d \<le> 256" for d :: guint
  proof -
    have lo: "- (2 ^ 31) \<le> sint d" using sint_ge [of d] by simp
    have "sint (d + 1) = signed_take_bit 31 (sint d + 1)"
      by (simp add: sint_word_ariths)
    also have "\<dots> = sint d + 1"
      using that lo by (intro signed_take_bit_int_eq_self) simp_all
    finally show ?thesis .
  qed
  have small: "sint d = uint d" if "uint d \<le> 256" for d :: guint
  proof -
    have "sint d = signed_take_bit 31 (uint d)"
      by (simp add: sint_uint)
    also have "\<dots> = uint d"
    proof (rule signed_take_bit_int_eq_self)
      have "- (2 ^ 31) \<le> (0::int)" by simp
      then show "- (2 ^ 31) \<le> uint d" using uint_ge_0 [of d] by (rule order_trans)
      show "uint d < 2 ^ 31" using that by simp
    qed
    finally show ?thesis .
  qed
  have dec_s: "sint d < sint (d + 1)" if "\<not> 256 < sint d" for d :: guint
    using that succ [of d] by simp
  have bound_u: "sint d < 258" if "\<not> 256 < uint d" for d :: guint
    using that small [of d] by simp
  have dec_u: "sint d < sint (d + 1)" if "\<not> 256 < uint d" for d :: guint
    using that small [of d] dec_s [of d] by simp
  show ?thesis
    apply (relation "measures
      [\<lambda>x. case x of
              Inl (Inl (repo, rel, pd, csum, objtype, d)) \<Rightarrow> nat (258 - sint d)
            | Inl (Inr (repo, rel, pd, csum, d)) \<Rightarrow> nat (258 - sint d)
            | Inr (Inl (repo, rel, pd, entries, d)) \<Rightarrow> nat (258 - sint d)
            | Inr (Inr (Inl (repo, rel, pd, csum, d))) \<Rightarrow> nat (258 - sint d)
            | Inr (Inr (Inr (repo, rel, pd, entries, d))) \<Rightarrow> nat (258 - sint d),
       \<lambda>x. case x of
              Inl (Inl (repo, rel, pd, csum, objtype, d)) \<Rightarrow> 1
            | Inl (Inr (repo, rel, pd, csum, d)) \<Rightarrow> 0
            | Inr (Inl (repo, rel, pd, entries, d)) \<Rightarrow> 2 + length entries
            | Inr (Inr (Inl (repo, rel, pd, csum, d))) \<Rightarrow> 0
            | Inr (Inr (Inr (repo, rel, pd, entries, d))) \<Rightarrow> 2 + length entries]")
    apply (simp_all add: OSTREE_MAX_RECURSION_def dec_s dec_u bound_u)
    done
qed

definition scan_one_metadata_object_v_name ::
  "OstreeRepo \<Rightarrow> bool \<Rightarrow> OtPullData \<Rightarrow> object_name \<Rightarrow> status \<times> OtPullData" where
  "scan_one_metadata_object_v_name repo opt_related pull_data object =
     scan_one_metadata_object repo opt_related pull_data (fst object) (snd object) 0"

text \<open>
  The \<^verbatim>\<open>while\<close> loop of \<^verbatim>\<open>on_metadata_objects_to_scan_ready\<close> over the messages it pops;
  it returns the last \<^verbatim>\<open>MAIN_IDLE\<close> message seen and the messages it left in the queue.
\<close>

fun scan_ready_messages ::
  "OstreeRepo \<Rightarrow> bool \<Rightarrow> OtPullData \<Rightarrow> PullWorkerMessage option \<Rightarrow> PullWorkerMessage list
     \<Rightarrow> status \<times> OtPullData \<times> PullWorkerMessage option \<times> PullWorkerMessage list" where
  "scan_ready_messages repo opt_related pull_data last_idle_msg [] =
     (OK, pull_data, last_idle_msg, [])"
| "scan_ready_messages repo opt_related pull_data last_idle_msg (msg # rest) =
     (case msg of
        PULL_MSG_SCAN item \<Rightarrow>
          (case scan_one_metadata_object_v_name repo opt_related pull_data item of
             (OK, pull_data) \<Rightarrow> scan_ready_messages repo opt_related pull_data last_idle_msg rest
           | (Failed e, pull_data) \<Rightarrow> (Failed e, pull_data, last_idle_msg, rest)
           | (Aborted, pull_data) \<Rightarrow> (Aborted, pull_data, last_idle_msg, rest))
      | PULL_MSG_MAIN_IDLE serial \<Rightarrow>
          scan_ready_messages repo opt_related pull_data (Some msg) rest
      | PULL_MSG_QUIT \<Rightarrow>
          scan_ready_messages repo opt_related
            (pull_data\<lparr>metadata_thread_loop_quit := True\<rparr>) last_idle_msg rest
      | PULL_MSG_SCAN_IDLE serial \<Rightarrow> (Aborted, pull_data, last_idle_msg, rest)
      | PULL_MSG_FETCH item \<Rightarrow> (Aborted, pull_data, last_idle_msg, rest))"

text \<open>
  \<^verbatim>\<open>on_metadata_objects_to_scan_ready\<close> on the scanner thread. A status \<open>Failed e\<close> says that
  \<^verbatim>\<open>idle_throw_error\<close> was scheduled on the main loop with \<open>e\<close>.
\<close>

definition on_metadata_objects_to_scan_ready ::
  "OstreeRepo \<Rightarrow> bool \<Rightarrow> OtPullData \<Rightarrow> status \<times> OtPullData" where
  "on_metadata_objects_to_scan_ready repo opt_related pull_data =
     (case scan_ready_messages repo opt_related pull_data None
             (case metadata_objects_to_scan pull_data of None \<Rightarrow> [] | Some q \<Rightarrow> q) of
        (st, pull_data, last_idle_msg, rest) \<Rightarrow>
          let pull_data = pull_data
                \<lparr>metadata_objects_to_scan :=
                   map_option (\<lambda>q. rest) (metadata_objects_to_scan pull_data)\<rparr>
          in case st of
               OK \<Rightarrow>
                 let pull_data =
                       (case last_idle_msg of
                          None \<Rightarrow> pull_data
                        | Some m \<Rightarrow> pull_data
                            \<lparr>metadata_objects_to_fetch :=
                               ot_waitable_queue_push (metadata_objects_to_fetch pull_data) m\<rparr>)
                 in (OK, pull_data
                      \<lparr>metadata_objects_to_fetch :=
                         ot_waitable_queue_push (metadata_objects_to_fetch pull_data)
                           (PULL_MSG_SCAN_IDLE 0)\<rparr>)
             | Failed e \<Rightarrow> (Failed e, pull_data)
             | Aborted \<Rightarrow> (Aborted, pull_data))"

subsection \<open>The coordinator: ostree_builtin_pull\<close>

text \<open>
  Hash tables that are iterated are association lists, iterated in list order;
  \<^verbatim>\<open>g_hash_table_insert\<close> and \<^verbatim>\<open>g_hash_table_replace\<close> overwrite the entry of a key that
  is present.
\<close>

fun g_hash_table_insert :: "('k \<times> 'v) list \<Rightarrow> 'k \<Rightarrow> 'v \<Rightarrow> ('k \<times> 'v) list" where
  "g_hash_table_insert [] k v = [(k, v)]"
| "g_hash_table_insert ((k', v') # t) k v =
     (if k' = k then (k, v) # t else (k', v') # g_hash_table_insert t k v)"

text \<open>
  A parsed key file: its groups in order, each with its entries. Only GLib's parser makes
  one and only the helper \<^verbatim>\<open>ot_keyfile_get_value_with_default\<close> reads it, and both are
  collaborators.
\<close>

type_synonym GKeyFile = "(string \<times> (string \<times> string) list) list"

text \<open>
  Modelled from the spec: the enumeration \<^verbatim>\<open>OstreeRepoMode\<close> is declared in ostree-repo.h,
  not among the sources. The spec names the modes archive-z2 and bare;
  \<open>OSTREE_REPO_MODE_ARCHIVE\<close> stands for any further mode.
\<close>

datatype OstreeRepoMode =
    OSTREE_REPO_MODE_BARE
  | OSTREE_REPO_MODE_ARCHIVE
  | OSTREE_REPO_MODE_ARCHIVE_Z2

text \<open>
  What the collaborators answer during one run of \<^verbatim>\<open>ostree_builtin_pull\<close>: the network
  (\<^verbatim>\<open>fetch_uri_contents_utf8\<close> of a path below the base URI), GLib's key-file parser, the
  helpers \<^verbatim>\<open>ot_keyfile_get_value_with_default\<close>, \<^verbatim>\<open>ostree_repo_mode_from_string\<close>,
  \<^verbatim>\<open>ostree_validate_checksum_string\<close> and \<^verbatim>\<open>ostree_validate_rev\<close>, the list
  \<^verbatim>\<open>branches\<close> of the local configuration, the failures of the repository's operations,
  and the outcome of the wait for the pull: \<open>None\<close> when
  \<^verbatim>\<open>run_mainloop_monitor_fetcher\<close> returns \<^verbatim>\<open>TRUE\<close>, the asynchronous error otherwise.
\<close>

record pull_env =
  fetch_uri_contents_utf8 :: "string list \<Rightarrow> GError + string"
  g_key_file_load_from_data :: "string \<Rightarrow> GError + GKeyFile"
  ot_keyfile_get_value_with_default ::
    "GKeyFile \<Rightarrow> string \<Rightarrow> string \<Rightarrow> string \<Rightarrow> GError + string"
  ostree_repo_mode_from_string :: "string \<Rightarrow> GError + OstreeRepoMode"
  ostree_validate_checksum_string :: "string \<Rightarrow> bool"
  ostree_validate_rev :: "string \<Rightarrow> bool"
  configured_branches :: "GError + string list"
  prepare_transaction_error :: "GError option"
  resolve_rev_error :: "string \<Rightarrow> GError option"
  run_mainloop_monitor_fetcher :: "OtPullData \<Rightarrow> GError option"
  commit_transaction_error :: "GError option"
  write_ref_error :: "string \<Rightarrow> string \<Rightarrow> GError option"

text \<open>
  Modelled from the spec: the refs of the local repository, which are not among the
  sources. The store interface of the spec has \<^verbatim>\<open>write_ref(remote, ref, digest)\<close> and
  \<^verbatim>\<open>resolve_rev(ref, allow_missing) -> Option<digest>\<close>; the refs are a map from the
  name \<^verbatim>\<open><remote>/<ref>\<close> to the digest, and either operation may fail.
\<close>

type_synonym repo_refs = "string \<Rightarrow> checksum option"

definition ostree_repo_resolve_rev ::
  "pull_env \<Rightarrow> repo_refs \<Rightarrow> string \<Rightarrow> GError + checksum option" where
  "ostree_repo_resolve_rev env refs remote_ref =
     (case resolve_rev_error env remote_ref of
        Some e \<Rightarrow> Inl e
      | None \<Rightarrow> Inr (refs remote_ref))"

definition ostree_repo_write_ref ::
  "pull_env \<Rightarrow> repo_refs \<Rightarrow> string \<Rightarrow> string \<Rightarrow> checksum \<Rightarrow> GError + repo_refs" where
  "ostree_repo_write_ref env refs remote_name ref checksum =
     (case write_ref_error env remote_name ref of
        Some e \<Rightarrow> Inl e
      | None \<Rightarrow> Inr (refs(remote_name @ ''/'' @ ref \<mapsto> checksum)))"

text \<open>What \<^verbatim>\<open>ostree_builtin_pull\<close> asks of the repository and of the main loop, in order.\<close>

datatype pull_event =
    Prepare_transaction
  | Run_mainloop OtPullData
  | Commit_transaction "GError option"
  | Write_ref string string checksum "GError option"

definition load_remote_repo_config :: "pull_env \<Rightarrow> GError + GKeyFile" where
  "load_remote_repo_config env =
     (case fetch_uri_contents_utf8 env [''config''] of
        Inl e \<Rightarrow> Inl e
      | Inr contents \<Rightarrow> g_key_file_load_from_data env contents)"

text \<open>
  The message of the error of line 1264,
  \<^verbatim>\<open>Can't pull from archives with mode "%s"\<close>.
\<close>

definition cannot_pull_from_mode :: "string \<Rightarrow> string" where
  "cannot_pull_from_mode remote_mode_str =
     ''Can'' @ [CHR 0x27] @ ''t pull from archives with mode '' @
     [CHR 0x22] @ remote_mode_str @ [CHR 0x22]"

text \<open>Lines 1252 to 1268: the remote's configuration and the test of its mode.\<close>

definition pull_remote_mode :: "pull_env \<Rightarrow> GError + OstreeRepoMode" where
  "pull_remote_mode env =
     (case load_remote_repo_config env of
        Inl e \<Rightarrow> Inl e
      | Inr remote_config \<Rightarrow>
          (case ot_keyfile_get_value_with_default env remote_config ''core'' ''mode'' ''bare'' of
             Inl e \<Rightarrow> Inl e
           | Inr remote_mode_str \<Rightarrow>
               (case ostree_repo_mode_from_string env remote_mode_str of
                  Inl e \<Rightarrow> Inl e
                | Inr remote_mode \<Rightarrow>
                    if remote_mode \<noteq> OSTREE_REPO_MODE_ARCHIVE_Z2
                    then Inl (G_IO_ERROR_FAILED (cannot_pull_from_mode remote_mode_str))
                    else Inr remote_mode)))"

text \<open>
  GLib's \<^verbatim>\<open>g_ascii_isspace\<close> and \<^verbatim>\<open>g_strchomp\<close>, which are not among the sources: the
  white space of GLib's table is the space, the horizontal tab, the line feed, the form
  feed and the carriage return (the vertical tab is not), and \<^verbatim>\<open>g_strchomp\<close> removes the
  trailing white space.
\<close>

definition g_ascii_isspace :: "char \<Rightarrow> bool" where
  "g_ascii_isspace c = (c \<in> set [CHR '' '', CHR 0x09, CHR 0x0A, CHR 0x0C, CHR 0x0D])"

definition g_strchomp :: "string \<Rightarrow> string" where
  "g_strchomp str = rev (dropWhile g_ascii_isspace (rev str))"

definition fetch_ref_contents :: "pull_env \<Rightarrow> string \<Rightarrow> GError + string" where
  "fetch_ref_contents env ref =
     (case fetch_uri_contents_utf8 env [''refs'', ''heads'', ref] of
        Inl e \<Rightarrow> Inl e
      | Inr contents \<Rightarrow>
          let ret_contents = g_strchomp contents
          in if ostree_validate_checksum_string env ret_contents
             then Inr ret_contents
             else Inl (Collaborator_error ''Invalid checksum string''))"

text \<open>\<^verbatim>\<open>g_strsplit_set (contents, "\n", -1)\<close>: the pieces between line feeds.\<close>

fun split_lines :: "string \<Rightarrow> string \<Rightarrow> string list" where
  "split_lines acc [] = [rev acc]"
| "split_lines acc (c # cs) =
     (if c = CHR 0x0A then rev acc # split_lines [] cs else split_lines (c # acc) cs)"

fun parse_ref_summary_lines ::
  "pull_env \<Rightarrow> string list \<Rightarrow> (string \<times> checksum) list \<Rightarrow> GError + (string \<times> checksum) list" where
  "parse_ref_summary_lines env [] ret_refs = Inr ret_refs"
| "parse_ref_summary_lines env (line # rest) ret_refs =
     (if line = [] then parse_ref_summary_lines env rest ret_refs
      else if CHR '' '' \<notin> set line
      then Inl (G_IO_ERROR_FAILED
             (''Invalid ref summary file; missing '' @ [CHR 0x27] @ '' '' @ [CHR 0x27] @ '' in line''))
      else
        let ref = tl (dropWhile (\<lambda>c. c \<noteq> CHR '' '') line)
        in if \<not> ostree_validate_rev env ref
           then Inl (Collaborator_error ''Invalid rev'')
           else
             let sha256 = takeWhile (\<lambda>c. c \<noteq> CHR '' '') line
             in if \<not> ostree_validate_checksum_string env sha256
                then Inl (Collaborator_error ''Invalid checksum string'')
                else parse_ref_summary_lines env rest (g_hash_table_insert ret_refs ref sha256))"

definition parse_ref_summary :: "pull_env \<Rightarrow> string \<Rightarrow> GError + (string \<times> checksum) list" where
  "parse_ref_summary env contents =
     parse_ref_summary_lines env (if contents = [] then [] else split_lines [] contents) []"

text \<open>
  Lines 1274 to 1348: the branches to pull. With arguments: a checksum is a commit to
  fetch, anything else a branch whose head is fetched.
\<close>

fun pull_arguments ::
  "pull_env \<Rightarrow> string list \<Rightarrow> checksum list \<times> (string \<times> checksum) list
     \<Rightarrow> GError + checksum list \<times> (string \<times> checksum) list" where
  "pull_arguments env [] tables = Inr tables"
| "pull_arguments env (branch # rest) (commits_to_fetch, requested_refs_to_fetch) =
     (if ostree_validate_checksum_string env branch
      then pull_arguments env rest
             (if branch \<in> set commits_to_fetch then commits_to_fetch
              else commits_to_fetch @ [branch],
              requested_refs_to_fetch)
      else case fetch_ref_contents env branch of
             Inl e \<Rightarrow> Inl e
           | Inr contents \<Rightarrow>
               pull_arguments env rest
                 (commits_to_fetch, g_hash_table_insert requested_refs_to_fetch branch contents))"

fun pull_configured_branches ::
  "pull_env \<Rightarrow> string list \<Rightarrow> (string \<times> checksum) list \<Rightarrow> GError + (string \<times> checksum) list" where
  "pull_configured_branches env [] requested_refs_to_fetch = Inr requested_refs_to_fetch"
| "pull_configured_branches env (branch # rest) requested_refs_to_fetch =
     (case fetch_ref_contents env branch of
        Inl e \<Rightarrow> Inl e
      | Inr contents \<Rightarrow>
          pull_configured_branches env rest
            (g_hash_table_insert requested_refs_to_fetch branch contents))"

definition pull_requested ::
  "pull_env \<Rightarrow> string list \<Rightarrow> GError + checksum list \<times> (string \<times> checksum) list" where
  "pull_requested env branches =
     (if branches \<noteq> []
      then pull_arguments env branches ([], [])
      else case configured_branches env of
             Inl G_KEY_FILE_ERROR_KEY_NOT_FOUND \<Rightarrow>
               (case fetch_uri_contents_utf8 env [''refs'', ''summary''] of
                  Inl e \<Rightarrow> Inl e
                | Inr summary_data \<Rightarrow>
                    (case parse_ref_summary env summary_data of
                       Inl e \<Rightarrow> Inl e
                     | Inr requested_refs_to_fetch \<Rightarrow> Inr ([], requested_refs_to_fetch)))
           | Inl e \<Rightarrow> Inl e
           | Inr configured \<Rightarrow>
               (case pull_configured_branches env configured [] of
                  Inl e \<Rightarrow> Inl e
                | Inr requested_refs_to_fetch \<Rightarrow> Inr ([], requested_refs_to_fetch)))"

text \<open>
  \<^verbatim>\<open>memset (pull_data, 0, sizeof (*pull_data))\<close> and the three empty hash tables.
\<close>

definition pull_data_init :: OtPullData where
  "pull_data_init =
     \<lparr>fetcher = [], repo_stage_requests = [], loop_quit = False,
      metadata_thread_loop_quit = False, n_scanned_metadata = 0,
      outstanding_uri_requests = 0, metadata_objects_to_scan = None,
      metadata_objects_to_fetch = None, scanned_metadata = {}, requested_metadata = {},
      requested_content = {}, metadata_scan_idle = False, idle_serial = 0,
      n_outstanding_metadata_fetches = 0, n_outstanding_metadata_stage_requests = 0,
      n_outstanding_content_fetches = 0, n_outstanding_content_stage_requests = 0,
      n_requested_metadata = 0, n_requested_content = 0, n_fetched_metadata = 0,
      n_fetched_content = 0, async_error = None, caught_error = False\<rparr>"

text \<open>Lines 1357 to 1365: a scan of every commit named on the command line.\<close>

fun pull_seed_commits :: "OtPullData \<Rightarrow> checksum list \<Rightarrow> OtPullData" where
  "pull_seed_commits pull_data [] = pull_data"
| "pull_seed_commits pull_data (commit # rest) =
     pull_seed_commits
       (pull_data\<lparr>metadata_objects_to_scan :=
          ot_waitable_queue_push (metadata_objects_to_scan pull_data)
            (PULL_MSG_SCAN (commit, OSTREE_OBJECT_TYPE_COMMIT))\<rparr>)
       rest"

text \<open>
  Lines 1367 to 1393: for every requested ref, the stored value of
  \<^verbatim>\<open><remote>/<ref>\<close> is compared with the fetched one.
\<close>

fun pull_seed_refs ::
  "pull_env \<Rightarrow> repo_refs \<Rightarrow> string \<Rightarrow> OtPullData \<times> (string \<times> checksum) list
     \<Rightarrow> (string \<times> checksum) list \<Rightarrow> GError + OtPullData \<times> (string \<times> checksum) list" where
  "pull_seed_refs env refs remote_name acc [] = Inr acc"
| "pull_seed_refs env refs remote_name (pull_data, updated_refs) ((ref, sha256) # rest) =
     (case ostree_repo_resolve_rev env refs (remote_name @ ''/'' @ ref) of
        Inl e \<Rightarrow> Inl e
      | Inr original_rev \<Rightarrow>
          if original_rev = Some sha256
          then pull_seed_refs env refs remote_name (pull_data, updated_refs) rest
          else pull_seed_refs env refs remote_name
                 (pull_data\<lparr>metadata_objects_to_scan :=
                    ot_waitable_queue_push (metadata_objects_to_scan pull_data)
                      (PULL_MSG_SCAN (sha256, OSTREE_OBJECT_TYPE_COMMIT))\<rparr>,
                  g_hash_table_insert updated_refs ref sha256)
                 rest)"

text \<open>Lines 1414 to 1427: the refs are written, until one write fails.\<close>

fun pull_write_refs ::
  "pull_env \<Rightarrow> string \<Rightarrow> repo_refs \<Rightarrow> (string \<times> checksum) list
     \<Rightarrow> GError option \<times> repo_refs \<times> pull_event list" where
  "pull_write_refs env remote_name refs [] = (None, refs, [])"
| "pull_write_refs env remote_name refs ((ref, checksum) # rest) =
     (case ostree_repo_write_ref env refs remote_name ref checksum of
        Inl e \<Rightarrow> (Some e, refs, [Write_ref remote_name ref checksum (Some e)])
      | Inr refs' \<Rightarrow>
          (case pull_write_refs env remote_name refs' rest of
             (r, refs'', evs) \<Rightarrow> (r, refs'', Write_ref remote_name ref checksum None # evs)))"

text \<open>
  \<^verbatim>\<open>ostree_builtin_pull\<close> from line 1252 on, for the remote \<open>remote_name\<close> and the
  arguments \<open>branches\<close> that follow it: the error it returns with (\<open>None\<close> when it
  returns \<^verbatim>\<open>TRUE\<close>), the refs of the local repository afterwards, and what it asked
  of the repository and of the main loop.
\<close>

definition ostree_builtin_pull ::
  "pull_env \<Rightarrow> repo_refs \<Rightarrow> string \<Rightarrow> string list
     \<Rightarrow> GError option \<times> repo_refs \<times> pull_event list" where
  "ostree_builtin_pull env refs remote_name branches =
     (case pull_remote_mode env of
        Inl e \<Rightarrow> (Some e, refs, [])
      | Inr remote_mode \<Rightarrow>
      (case pull_requested env branches of
        Inl e \<Rightarrow> (Some e, refs, [])
      | Inr (commits_to_fetch, requested_refs_to_fetch) \<Rightarrow>
      (case prepare_transaction_error env of
        Some e \<Rightarrow> (Some e, refs, [Prepare_transaction])
      | None \<Rightarrow>
      (let pull_data = pull_data_init
             \<lparr>metadata_objects_to_fetch := Some [], metadata_objects_to_scan := Some []\<rparr>;
           pull_data = pull_seed_commits pull_data commits_to_fetch
       in case pull_seed_refs env refs remote_name (pull_data, []) requested_refs_to_fetch of
            Inl e \<Rightarrow> (Some e, refs, [Prepare_transaction])
          | Inr (pull_data, updated_refs) \<Rightarrow>
          (let pull_data = pull_data\<lparr>idle_serial := idle_serial pull_data + 1\<rparr>;
               pull_data = pull_data
                 \<lparr>metadata_objects_to_scan :=
                    ot_waitable_queue_push (metadata_objects_to_scan pull_data)
                      (PULL_MSG_MAIN_IDLE (idle_serial pull_data))\<rparr>
           in case run_mainloop_monitor_fetcher env pull_data of
                Some e \<Rightarrow> (Some e, refs, [Prepare_transaction, Run_mainloop pull_data])
              | None \<Rightarrow>
              (case commit_transaction_error env of
                 Some e \<Rightarrow>
                   (Some e, refs,
                    [Prepare_transaction, Run_mainloop pull_data, Commit_transaction (Some e)])
               | None \<Rightarrow>
                   (case pull_write_refs env remote_name refs updated_refs of
                      (r, refs', evs) \<Rightarrow>
                        (r, refs',
                         [Prepare_transaction, Run_mainloop pull_data, Commit_transaction None]
                           @ evs))))))))"

subsection \<open>States for the examples\<close>

text \<open>
  The state while the coordinator waits for the pull: both queues exist, nothing is
  outstanding, and the idle serial was primed to 1.
\<close>

definition waiting_pull_data :: OtPullData where
  "waiting_pull_data =
     pull_data_init\<lparr>metadata_objects_to_fetch := Some [], metadata_objects_to_scan := Some [],
                    idle_serial := 1\<rparr>"

text \<open>A checksum string of 64 characters.\<close>

definition example_digest :: "char \<Rightarrow> checksum" where
  "example_digest c = replicate 64 c"

subsection \<open>A remote for the examples\<close>

text \<open>
  Modelled from the spec: \<^verbatim>\<open>ostree_repo_mode_from_string\<close> (libostree) is not among the
  sources, and \<^verbatim>\<open>ostree_builtin_pull\<close> takes its answers from \<open>pull_env\<close>. The spec names
  the modes archive-z2 and bare; the model reads these two names and rejects every other
  string.
\<close>

definition repo_mode_from_string_model :: "string \<Rightarrow> GError + OstreeRepoMode" where
  "repo_mode_from_string_model mode =
     (if mode = ''bare'' then Inr OSTREE_REPO_MODE_BARE
      else if mode = ''archive-z2'' then Inr OSTREE_REPO_MODE_ARCHIVE_Z2
      else Inl (Collaborator_error ''Invalid mode''))"

text \<open>The key file with the one group \<^verbatim>\<open>[core]\<close> and its one entry \<^verbatim>\<open>mode\<close>.\<close>

definition config_with_mode :: "string \<Rightarrow> GKeyFile" where
  "config_with_mode mode = [(''core'', [(''mode'', mode)])]"

text \<open>
  A remote for the examples: its configuration is that key file, and \<open>mode\<close> is what the
  helper \<^verbatim>\<open>ot_keyfile_get_value_with_default\<close> answers; its branch \<^verbatim>\<open>main\<close> is at the commit
  \<open>aa...a\<close>, and no collaborator fails.
\<close>

definition example_env :: "string \<Rightarrow> pull_env" where
  "example_env mode =
     \<lparr>fetch_uri_contents_utf8 =
        (\<lambda>path. if path = [''config'']
                 then Inr (''[core]'' @ [CHR 0x0A] @ ''mode='' @ mode @ [CHR 0x0A])
                 else if path = [''refs'', ''heads'', ''main'']
                 then Inr (example_digest CHR ''a'' @ [CHR 0x0A])
                 else Inl (Collaborator_error ''Not found'')),
      g_key_file_load_from_data = (\<lambda>contents. Inr (config_with_mode mode)),
      ot_keyfile_get_value_with_default = (\<lambda>keyfile section key default_value. Inr mode),
      ostree_repo_mode_from_string = repo_mode_from_string_model,
      ostree_validate_checksum_string = (\<lambda>s. length s = 64),
      ostree_validate_rev = (\<lambda>s. s \<noteq> []),
      configured_branches = Inl G_KEY_FILE_ERROR_KEY_NOT_FOUND,
      prepare_transaction_error = None,
      resolve_rev_error = (\<lambda>r. None),
      run_mainloop_monitor_fetcher = (\<lambda>pull_data. None),
      commit_transaction_error = None,
      write_ref_error = (\<lambda>remote ref. None)\<rparr>"

text \<open>Whether an event is a call of \<^verbatim>\<open>ostree_repo_write_ref\<close>.\<close>

definition is_write_ref :: "pull_event \<Rightarrow> bool" where
  "is_write_ref ev = (case ev of Write_ref remote ref checksum r \<Rightarrow> True | _ \<Rightarrow> False)"

text \<open>
  The requested refs whose fetched checksum is not the stored value of
  \<^verbatim>\<open><remote>/<ref>\<close>: the ones the loop of line 1367 seeds a scan for.
\<close>

definition changed_refs ::
  "repo_refs \<Rightarrow> string \<Rightarrow> (string \<times> checksum) list \<Rightarrow> (string \<times> checksum) list" where
  "changed_refs refs remote_name requested =
     filter (\<lambda>(ref, sha256). refs (remote_name @ ''/'' @ ref) \<noteq> Some sha256) requested"

text \<open>
  The state handed to the main loop when nothing was seeded: the scan queue holds the
  priming \<^verbatim>\<open>MAIN_IDLE(1)\<close> only.
\<close>

definition idle_seed_pull_data :: OtPullData where
  "idle_seed_pull_data =
     waiting_pull_data\<lparr>metadata_objects_to_scan := Some [PULL_MSG_MAIN_IDLE 1]\<rparr>"

subsection \<open>The pull as a run of the scanner and the main loop\<close>

text \<open>
  The key under which a \<^verbatim>\<open>FETCH\<close> message is guarded: its checksum, and whether its type is
  a metadata type, that is, which of \<^verbatim>\<open>requested_metadata\<close> and \<^verbatim>\<open>requested_content\<close> the
  scanner looked the checksum up in. The other messages have none.
\<close>

fun fetch_key :: "PullWorkerMessage \<Rightarrow> (checksum \<times> bool) option" where
  "fetch_key (PULL_MSG_FETCH (csum, objtype)) = Some (csum, OSTREE_OBJECT_TYPE_IS_META objtype)"
| "fetch_key (PULL_MSG_SCAN_IDLE serial) = None"
| "fetch_key (PULL_MSG_MAIN_IDLE serial) = None"
| "fetch_key (PULL_MSG_SCAN item) = None"
| "fetch_key PULL_MSG_QUIT = None"

text \<open>Whether a key is in the hash table of its kind.\<close>

definition requested_key :: "OtPullData \<Rightarrow> checksum \<times> bool \<Rightarrow> bool" where
  "requested_key pull_data k =
     (if snd k then fst k \<in> requested_metadata pull_data
      else fst k \<in> requested_content pull_data)"

text \<open>
  The same key for an object request handed to the fetcher, the requests as the
  \<^verbatim>\<open>FETCH\<close> messages they were made for, and the \<^verbatim>\<open>FETCH\<close> messages waiting in a queue.
\<close>

definition request_key :: "fetch_callback \<times> object_name \<Rightarrow> checksum \<times> bool" where
  "request_key r = (fst (snd r), OSTREE_OBJECT_TYPE_IS_META (snd (snd r)))"

definition fetch_requests :: "OtPullData \<Rightarrow> PullWorkerMessage list" where
  "fetch_requests pull_data = map (\<lambda>r. PULL_MSG_FETCH (snd r)) (fetcher pull_data)"

definition queued_fetches :: "PullWorkerMessage list option \<Rightarrow> PullWorkerMessage list" where
  "queued_fetches queue =
     (case queue of None \<Rightarrow> [] | Some q \<Rightarrow> filter (\<lambda>m. fetch_key m \<noteq> None) q)"

text \<open>
  What a scan did to the state, as seen from the fetch queue: it appended the messages
  \<open>new\<close>, all of them \<^verbatim>\<open>FETCH\<close> messages with pairwise different keys, each for an object
  the repository said it has not, whose key was not requested before and is afterwards;
  both hash tables grew, and no request went to the fetcher.
\<close>

definition scan_emits ::
  "OstreeRepo \<Rightarrow> OtPullData \<Rightarrow> OtPullData \<Rightarrow> PullWorkerMessage list \<Rightarrow> bool" where
  "scan_emits repo pull_data pull_data' new =
     (metadata_objects_to_fetch pull_data' =
        map_option (\<lambda>q. q @ new) (metadata_objects_to_fetch pull_data) \<and>
      requested_metadata pull_data \<subseteq> requested_metadata pull_data' \<and>
      requested_content pull_data \<subseteq> requested_content pull_data' \<and>
      fetcher pull_data' = fetcher pull_data \<and>
      distinct (map fetch_key new) \<and>
      (\<forall>m \<in> set new. \<exists>csum objtype.
         m = PULL_MSG_FETCH (csum, objtype) \<and>
         ostree_repo_has_object repo objtype csum = Inr False \<and>
         \<not> requested_key pull_data (csum, OSTREE_OBJECT_TYPE_IS_META objtype) \<and>
         requested_key pull_data' (csum, OSTREE_OBJECT_TYPE_IS_META objtype)))"

definition scan_grows :: "OstreeRepo \<Rightarrow> OtPullData \<Rightarrow> OtPullData \<Rightarrow> bool" where
  "scan_grows repo pull_data pull_data' = (\<exists>new. scan_emits repo pull_data pull_data' new)"

text \<open>
  The same of a whole run of \<^verbatim>\<open>on_metadata_objects_to_scan_ready\<close>, which appends after the
  \<^verbatim>\<open>FETCH\<close> messages the \<^verbatim>\<open>MAIN_IDLE\<close> it saw and a \<^verbatim>\<open>SCAN_IDLE\<close>.
\<close>

definition scan_handler_emits ::
  "OstreeRepo \<Rightarrow> OtPullData \<Rightarrow> OtPullData \<Rightarrow> PullWorkerMessage list \<Rightarrow> PullWorkerMessage list \<Rightarrow> bool" where
  "scan_handler_emits repo pull_data pull_data' new idle =
     (metadata_objects_to_fetch pull_data' =
        map_option (\<lambda>q. q @ new @ idle) (metadata_objects_to_fetch pull_data) \<and>
      (\<forall>m \<in> set idle. fetch_key m = None) \<and>
      requested_metadata pull_data \<subseteq> requested_metadata pull_data' \<and>
      requested_content pull_data \<subseteq> requested_content pull_data' \<and>
      (\<forall>m \<in> set new. \<exists>csum objtype.
         m = PULL_MSG_FETCH (csum, objtype) \<and>
         ostree_repo_has_object repo objtype csum = Inr False \<and>
         \<not> requested_key pull_data (csum, OSTREE_OBJECT_TYPE_IS_META objtype) \<and>
         requested_key pull_data' (csum, OSTREE_OBJECT_TYPE_IS_META objtype)))"

text \<open>
  Every \<^verbatim>\<open>SCAN\<close> message waiting in the scan queue names a metadata object: the seeds are
  commits, and \<^verbatim>\<open>on_metadata_staged\<close> asserts the type before it pushes.
\<close>

definition scan_queue_is_metadata :: "OtPullData \<Rightarrow> bool" where
  "scan_queue_is_metadata pull_data =
     (\<forall>q object. metadata_objects_to_scan pull_data = Some q \<longrightarrow>
        PULL_MSG_SCAN object \<in> set q \<longrightarrow> OSTREE_OBJECT_TYPE_IS_META (snd object))"

text \<open>
  The states a pull goes through while \<^verbatim>\<open>run_mainloop_monitor_fetcher\<close> waits, with the
  \<^verbatim>\<open>FETCH\<close> messages pushed so far: the state handed to the main loop by
  \<^verbatim>\<open>ostree_builtin_pull\<close>, then any interleaving of runs of the scanner thread's handler
  (against any repository contents) and of callbacks on the main loop.
\<close>

inductive pull_run ::
  "pull_env \<Rightarrow> repo_refs \<Rightarrow> string \<Rightarrow> string list \<Rightarrow> OtPullData \<Rightarrow> PullWorkerMessage list \<Rightarrow> bool"
  for env refs remote_name branches where
    start:
      "ostree_builtin_pull env refs remote_name branches = (r, refs', evs) \<Longrightarrow>
       Run_mainloop pull_data \<in> set evs \<Longrightarrow>
       pull_run env refs remote_name branches pull_data []"
  | scan:
      "pull_run env refs remote_name branches pull_data log \<Longrightarrow>
       on_metadata_objects_to_scan_ready repo opt_related pull_data = (st, pull_data') \<Longrightarrow>
       metadata_objects_to_fetch pull_data = Some q \<Longrightarrow>
       metadata_objects_to_fetch pull_data' = Some (q @ new) \<Longrightarrow>
       pull_run env refs remote_name branches pull_data'
         (log @ filter (\<lambda>m. fetch_key m \<noteq> None) new)"
  | main:
      "pull_run env refs remote_name branches pull_data log \<Longrightarrow>
       main_loop_dispatch pull_data ev = Inr pull_data' \<Longrightarrow>
       pull_run env refs remote_name branches pull_data' log"

subsection \<open>A tree that lists one checksum twice\<close>

text \<open>
  A repository that holds the commit \<open>aa...a\<close> and its root tree \<open>bb...b\<close>; the tree lists
  the checksum \<open>dd...d\<close> both as the file \<^verbatim>\<open>f\<close> and as the tree of the subdirectory \<^verbatim>\<open>s\<close>.
\<close>

definition twice_listed_repo :: OstreeRepo where
  "twice_listed_repo =
     \<lparr>ostree_repo_has_object =
        (\<lambda>objtype csum.
           Inr ((objtype = OSTREE_OBJECT_TYPE_COMMIT \<and> csum = example_digest CHR ''a'') \<or>
                (objtype = OSTREE_OBJECT_TYPE_DIR_TREE \<and> csum = example_digest CHR ''b''))),
      ostree_repo_load_commit =
        (\<lambda>csum. if csum = example_digest CHR ''a''
                 then Inr \<lparr>commit_related = [],
                           commit_tree_contents_csum = example_digest CHR ''b'',
                           commit_tree_meta_csum = example_digest CHR ''e''\<rparr>
                 else Inl (Collaborator_error ''No such metadata object'')),
      ostree_repo_load_dirtree =
        (\<lambda>csum. if csum = example_digest CHR ''b''
                 then Inr \<lparr>tree_files = [(''f'', example_digest CHR ''d'')],
                           tree_dirs = [(''s'', example_digest CHR ''d'', example_digest CHR ''e'')]\<rparr>
                 else Inl (Collaborator_error ''No such metadata object''))\<rparr>"

text \<open>
  The state the first pull of \<^verbatim>\<open>main\<close> hands to the main loop, the state after the scanner
  handled the seed against that repository, and the state after the dispatcher took the
  first two messages from the fetch queue.
\<close>

definition seeded_pull_data :: OtPullData where
  "seeded_pull_data =
     waiting_pull_data\<lparr>metadata_objects_to_scan :=
        Some [PULL_MSG_SCAN (example_digest CHR ''a'', OSTREE_OBJECT_TYPE_COMMIT),
              PULL_MSG_MAIN_IDLE 1]\<rparr>"

definition twice_listed_scanned :: OtPullData where
  "twice_listed_scanned =
     waiting_pull_data
       \<lparr>metadata_objects_to_scan := Some [],
        metadata_objects_to_fetch :=
          Some [PULL_MSG_FETCH (example_digest CHR ''d'', OSTREE_OBJECT_TYPE_FILE),
                PULL_MSG_FETCH (example_digest CHR ''d'', OSTREE_OBJECT_TYPE_DIR_TREE),
                PULL_MSG_FETCH (example_digest CHR ''e'', OSTREE_OBJECT_TYPE_DIR_META),
                PULL_MSG_MAIN_IDLE 1, PULL_MSG_SCAN_IDLE 0],
        requested_metadata := {example_digest CHR ''d'', example_digest CHR ''e''},
        requested_content := {example_digest CHR ''d''},
        scanned_metadata := {(example_digest CHR ''a'', OSTREE_OBJECT_TYPE_COMMIT),
                             (example_digest CHR ''b'', OSTREE_OBJECT_TYPE_DIR_TREE)},
        n_scanned_metadata := 2\<rparr>"

definition twice_listed_requested :: OtPullData where
  "twice_listed_requested =
     twice_listed_scanned
       \<lparr>metadata_objects_to_fetch :=
          Some [PULL_MSG_FETCH (example_digest CHR ''e'', OSTREE_OBJECT_TYPE_DIR_META),
                PULL_MSG_MAIN_IDLE 1, PULL_MSG_SCAN_IDLE 0],
        fetcher :=
          [(Content_fetch_on_complete, (example_digest CHR ''d'', OSTREE_OBJECT_TYPE_FILE)),
           (Meta_fetch_on_complete, (example_digest CHR ''d'', OSTREE_OBJECT_TYPE_DIR_TREE))],
        n_outstanding_content_fetches := 1, n_requested_content := 1,
        n_outstanding_metadata_fetches := 1, n_requested_metadata := 1\<rparr>"

text \<open>The \<^verbatim>\<open>FETCH\<close> messages of that run.\<close>

definition twice_listed_log :: "PullWorkerMessage list" where
  "twice_listed_log =
     [PULL_MSG_FETCH (example_digest CHR ''d'', OSTREE_OBJECT_TYPE_FILE),
      PULL_MSG_FETCH (example_digest CHR ''d'', OSTREE_OBJECT_TYPE_DIR_TREE),
      PULL_MSG_FETCH (example_digest CHR ''e'', OSTREE_OBJECT_TYPE_DIR_META)]"

subsection \<open>The calls of a scan\<close>

text \<open>
  A call of one of the five functions of the scanner with its arguments. The five argument
  tuples are the summands, in the order of the definition: \<open>scan_one_metadata_object\<close>,
  \<open>scan_commit_object\<close>, the loop over the related commits, \<open>scan_dirtree_object\<close>, the loop
  over the subdirectories.
\<close>

type_synonym scan_call =
  "((OstreeRepo \<times> bool \<times> OtPullData \<times> checksum \<times> OstreeObjectType \<times> guint) +
    (OstreeRepo \<times> bool \<times> OtPullData \<times> checksum \<times> guint)) +
   ((OstreeRepo \<times> bool \<times> OtPullData \<times> (string \<times> checksum) list \<times> guint) +
    ((OstreeRepo \<times> bool \<times> OtPullData \<times> checksum \<times> guint) +
     (OstreeRepo \<times> bool \<times> OtPullData \<times> (string \<times> checksum \<times> checksum) list \<times> guint)))"

definition scan_one_metadata_object_call ::
  "OstreeRepo \<Rightarrow> bool \<Rightarrow> OtPullData \<Rightarrow> checksum \<Rightarrow> OstreeObjectType \<Rightarrow> guint \<Rightarrow> scan_call" where
  "scan_one_metadata_object_call repo opt_related pull_data csum objtype recursion_depth =
     Inl (Inl (repo, opt_related, pull_data, csum, objtype, recursion_depth))"

definition scan_commit_object_call ::
  "OstreeRepo \<Rightarrow> bool \<Rightarrow> OtPullData \<Rightarrow> checksum \<Rightarrow> guint \<Rightarrow> scan_call" where
  "scan_commit_object_call repo opt_related pull_data checksum recursion_depth =
     Inl (Inr (repo, opt_related, pull_data, checksum, recursion_depth))"

definition scan_commit_related_call ::
  "OstreeRepo \<Rightarrow> bool \<Rightarrow> OtPullData \<Rightarrow> (string \<times> checksum) list \<Rightarrow> guint \<Rightarrow> scan_call" where
  "scan_commit_related_call repo opt_related pull_data entries depth1 =
     Inr (Inl (repo, opt_related, pull_data, entries, depth1))"

definition scan_dirtree_object_call ::
  "OstreeRepo \<Rightarrow> bool \<Rightarrow> OtPullData \<Rightarrow> checksum \<Rightarrow> guint \<Rightarrow> scan_call" where
  "scan_dirtree_object_call repo opt_related pull_data checksum recursion_depth =
     Inr (Inr (Inl (repo, opt_related, pull_data, checksum, recursion_depth)))"

definition scan_dirtree_dirs_call ::
  "OstreeRepo \<Rightarrow> bool \<Rightarrow> OtPullData \<Rightarrow> (string \<times> checksum \<times> checksum) list \<Rightarrow> guint \<Rightarrow> scan_call" where
  "scan_dirtree_dirs_call repo opt_related pull_data entries depth1 =
     Inr (Inr (Inr (repo, opt_related, pull_data, entries, depth1)))"

text \<open>The \<^verbatim>\<open>recursion_depth\<close> a call was given.\<close>

definition scan_call_depth :: "scan_call \<Rightarrow> guint" where
  "scan_call_depth call =
     (case call of
        Inl (Inl (repo, opt_related, pull_data, csum, objtype, recursion_depth)) \<Rightarrow> recursion_depth
      | Inl (Inr (repo, opt_related, pull_data, checksum, recursion_depth)) \<Rightarrow> recursion_depth
      | Inr (Inl (repo, opt_related, pull_data, entries, depth1)) \<Rightarrow> depth1
      | Inr (Inr (Inl (repo, opt_related, pull_data, checksum, recursion_depth))) \<Rightarrow> recursion_depth
      | Inr (Inr (Inr (repo, opt_related, pull_data, entries, depth1))) \<Rightarrow> depth1)"

text \<open>
  \<open>scan_calls caller callee\<close>: while it runs, the call \<open>caller\<close> makes the call \<open>callee\<close>. This is
  the relation of the recursive calls of the definition of the scanner above, each with
  the tests that lead to it, as it was derived from the equations for the proof of
  termination.
\<close>

definition scan_calls :: "scan_call \<Rightarrow> scan_call \<Rightarrow> bool" where
  "scan_calls caller callee =
     scan_one_metadata_object_scan_commit_object_scan_commit_related_scan_dirtree_object_scan_dirtree_dirs_rel
       callee caller"

text \<open>
  A repository that answers every \<^verbatim>\<open>ostree_repo_has_object\<close> with yes and in which every
  tree has one subdirectory \<^verbatim>\<open>s\<close> whose tree is that tree again.
\<close>

definition looping_repo :: OstreeRepo where
  "looping_repo =
     \<lparr>ostree_repo_has_object = (\<lambda>objtype csum. Inr True),
      ostree_repo_load_commit = (\<lambda>csum. Inl (Collaborator_error ''No such metadata object'')),
      ostree_repo_load_dirtree =
        (\<lambda>csum. Inr \<lparr>tree_files = [], tree_dirs = [(''s'', csum, example_digest CHR ''e'')]\<rparr>)\<rparr>"

text \<open>
  Checksums for a chain of nested trees, one for each level: 64 characters, \<open>n div 16\<close>
  times \<^verbatim>\<open>b\<close>, then \<open>n mod 16\<close> times \<^verbatim>\<open>a\<close>, then \<^verbatim>\<open>0\<close>; and the level such a checksum
  stands for.
\<close>

definition level_digest :: "nat \<Rightarrow> checksum" where
  "level_digest n =
     replicate (n div 16) CHR ''b'' @ replicate (n mod 16) CHR ''a'' @
     replicate (64 - n div 16 - n mod 16) CHR ''0''"

definition tree_level :: "checksum \<Rightarrow> nat" where
  "tree_level csum = 16 * count_list csum CHR ''b'' + count_list csum CHR ''a''"

text \<open>
  A repository that holds every dirmeta and the trees of the levels 0 to 256: the tree of
  a level has one subdirectory \<^verbatim>\<open>s\<close>, whose tree is the one of the next level. The tree of
  level 257 is not stored.
\<close>

definition deep_repo :: OstreeRepo where
  "deep_repo =
     \<lparr>ostree_repo_has_object =
        (\<lambda>objtype csum.
           Inr (objtype = OSTREE_OBJECT_TYPE_DIR_META \<or>
                (objtype = OSTREE_OBJECT_TYPE_DIR_TREE \<and> tree_level csum \<le> 256))),
      ostree_repo_load_commit = (\<lambda>csum. Inl (Collaborator_error ''No such metadata object'')),
      ostree_repo_load_dirtree =
        (\<lambda>csum. Inr \<lparr>tree_files = [],
                       tree_dirs = [(''s'', level_digest (Suc (tree_level csum)),
                                     example_digest CHR ''e'')]\<rparr>)\<rparr>"

section \<open>Properties\<close>

subsection \<open>The dispatcher and the end of the wait\<close>

lemma check_no_error_quit:
  "metadata_objects_to_scan pd \<noteq> None \<Longrightarrow>
   loop_quit (check_outstanding_requests_handle_error pd None) =
     (loop_quit pd \<or> (metadata_scan_idle pd \<and> all_outstanding_zero pd))"
  by (auto simp: check_outstanding_requests_handle_error_def throw_async_error_def
        all_outstanding_zero_def Let_def)

lemma check_fields [simp]:
  "metadata_scan_idle (check_outstanding_requests_handle_error pd err) = metadata_scan_idle pd"
  "all_outstanding_zero (check_outstanding_requests_handle_error pd err) = all_outstanding_zero pd"
  "metadata_objects_to_scan (check_outstanding_requests_handle_error pd err) = metadata_objects_to_scan pd"
  "idle_serial (check_outstanding_requests_handle_error pd err) = idle_serial pd"
  by (auto simp: check_outstanding_requests_handle_error_def throw_async_error_def
        all_outstanding_zero_def Let_def split: option.splits)

lemma check_caught:
  "caught_error (check_outstanding_requests_handle_error pd err) = (caught_error pd \<or> err \<noteq> None)"
  by (auto simp: check_outstanding_requests_handle_error_def throw_async_error_def
        Let_def split: option.splits)

lemma fetch_ready_message_frame:
  "fetch_ready_message pd msg = Inr pd' \<Longrightarrow>
     loop_quit pd' = loop_quit pd \<and> caught_error pd' = caught_error pd \<and>
     (metadata_objects_to_scan pd \<noteq> None \<longrightarrow> metadata_objects_to_scan pd' \<noteq> None)"
  by (auto simp: fetch_ready_message_def ot_waitable_queue_push_def Let_def
        split: PullWorkerMessage.splits if_splits)

theorem dispatcher_quits_iff_idle:
  assumes queues: "metadata_objects_to_scan pull_data \<noteq> None"
    and running: "\<not> loop_quit pull_data" "\<not> caught_error pull_data"
    and step: "on_metadata_objects_to_fetch_ready pull_data = Inr pull_data'"
  shows "loop_quits_with_success pull_data' \<longleftrightarrow>
           metadata_scan_idle pull_data' \<and> all_outstanding_zero pull_data'"
proof (cases "ot_waitable_queue_pop (metadata_objects_to_fetch pull_data)")
  case None
  with step have "pull_data' = check_outstanding_requests_handle_error pull_data None"
    by (simp add: on_metadata_objects_to_fetch_ready_def)
  with queues running show ?thesis
    by (simp add: loop_quits_with_success_def check_no_error_quit check_caught)
next
  case (Some a)
  obtain msg rest where a: "a = (msg, rest)" by (cases a)
  from step Some a obtain pd1 where
    m: "fetch_ready_message (pull_data\<lparr>metadata_objects_to_fetch := rest\<rparr>) msg = Inr pd1"
    and p: "pull_data' = check_outstanding_requests_handle_error pd1 None"
    by (auto simp: on_metadata_objects_to_fetch_ready_def split: sum.splits)
  from fetch_ready_message_frame [OF m] queues running
  have "loop_quit pd1 = False" "caught_error pd1 = False" "metadata_objects_to_scan pd1 \<noteq> None"
    by simp_all
  with p show ?thesis
    by (simp add: loop_quits_with_success_def check_no_error_quit check_caught)
qed




lemma throw_async_error_success:
  "loop_quits_with_success (throw_async_error pd err) \<Longrightarrow> loop_quits_with_success pd"
  by (auto simp: throw_async_error_def loop_quits_with_success_def split: option.splits if_splits)

lemma check_success_only_if:
  assumes "metadata_objects_to_scan pd \<noteq> None" "\<not> loop_quit pd"
    and "loop_quits_with_success (check_outstanding_requests_handle_error pd err)"
  shows "metadata_scan_idle pd \<and> all_outstanding_zero pd"
  using assms
  by (auto simp: check_outstanding_requests_handle_error_def throw_async_error_def
        loop_quits_with_success_def all_outstanding_zero_def Let_def
        split: option.splits if_splits)

theorem main_loop_success_only_if_idle:
  assumes queues: "metadata_objects_to_scan pull_data \<noteq> None"
    and running: "\<not> loop_quit pull_data" "\<not> caught_error pull_data"
    and step: "main_loop_dispatch pull_data ev = Inr pull_data'"
    and quit: "loop_quits_with_success pull_data'"
  shows "metadata_scan_idle pull_data' \<and> all_outstanding_zero pull_data'"
proof (cases ev)
  case Fetch_queue_ready
  with step have "on_metadata_objects_to_fetch_ready pull_data = Inr pull_data'"
    by (simp add: main_loop_dispatch_def)
  from dispatcher_quits_iff_idle [OF queues running this] quit show ?thesis by simp
next
  case (Meta_fetched object r m)
  with step have "pull_data' = meta_fetch_on_complete pull_data object r m"
    by (simp add: main_loop_dispatch_def)
  with quit running show ?thesis
    by (auto simp: meta_fetch_on_complete_def Let_def loop_quits_with_success_def
          throw_async_error_def split: option.splits if_splits sum.splits)
next
  case (Content_fetched object r m)
  with step have s: "content_fetch_on_complete pull_data object r m = Inr pull_data'"
    by (simp add: main_loop_dispatch_def)
  then obtain pd1 err where
    p: "pull_data' = check_outstanding_requests_handle_error pd1 err"
    and f: "metadata_objects_to_scan pd1 = metadata_objects_to_scan pull_data"
           "loop_quit pd1 = loop_quit pull_data"
    by (auto simp: content_fetch_on_complete_def Let_def split: sum.splits if_splits)
  from check_success_only_if [of pd1 err] p f queues running quit show ?thesis
    by simp
next
  case (Metadata_staged object r)
  with step have s: "on_metadata_staged pull_data object r = Inr pull_data'"
    by (simp add: main_loop_dispatch_def)
  then obtain pd1 err where
    p: "pull_data' = check_outstanding_requests_handle_error pd1 err"
    and f: "metadata_objects_to_scan pd1 \<noteq> None"
           "loop_quit pd1 = loop_quit pull_data"
    using queues
    by (auto simp: on_metadata_staged_def Let_def ot_waitable_queue_push_def
          split: sum.splits if_splits)
  from check_success_only_if [of pd1 err] p f queues running quit show ?thesis
    by simp
next
  case (Content_staged object r)
  with step have s: "content_fetch_on_stage_complete pull_data object r = Inr pull_data'"
    by (simp add: main_loop_dispatch_def)
  then obtain pd1 err where
    p: "pull_data' = check_outstanding_requests_handle_error pd1 err"
    and f: "metadata_objects_to_scan pd1 = metadata_objects_to_scan pull_data"
           "loop_quit pd1 = loop_quit pull_data"
    by (auto simp: content_fetch_on_stage_complete_def Let_def split: sum.splits if_splits)
  from check_success_only_if [of pd1 err] p f queues running quit show ?thesis
    by simp
next
  case (Scan_threw e)
  with step have "pull_data' = idle_throw_error pull_data e"
    by (simp add: main_loop_dispatch_def)
  with quit running show ?thesis
    by (auto simp: idle_throw_error_def loop_quits_with_success_def
          throw_async_error_def split: option.splits if_splits)
next
  case Idle_check
  with step have "pull_data' = check_outstanding_requests_handle_error pull_data None"
    by (simp add: main_loop_dispatch_def idle_check_outstanding_requests_def)
  from check_success_only_if [of pull_data None] this queues running quit show ?thesis
    by simp
qed


text \<open>
  Claim C1. Once the queues exist (\<^verbatim>\<open>metadata_objects_to_scan\<close> is not \<^verbatim>\<open>NULL\<close>) and
  while the main loop runs with no error caught, the loop is told to quit with success
  by the handler of the fetch queue exactly when, after the message, the scan-idle flag
  is set and the four outstanding counters are zero. No other callback on the main loop
  makes the loop quit with success while the flag is clear or a counter is not zero.
\<close>

theorem C1_loop_quits_with_success_iff_idle:
  assumes "metadata_objects_to_scan pull_data \<noteq> None"
    and "\<not> loop_quit pull_data" and "\<not> caught_error pull_data"
  shows "(\<forall>pull_data'. on_metadata_objects_to_fetch_ready pull_data = Inr pull_data' \<longrightarrow>
            (loop_quits_with_success pull_data' \<longleftrightarrow>
               metadata_scan_idle pull_data' \<and> all_outstanding_zero pull_data')) \<and>
         (\<forall>ev pull_data'. main_loop_dispatch pull_data ev = Inr pull_data' \<longrightarrow>
            loop_quits_with_success pull_data' \<longrightarrow>
               metadata_scan_idle pull_data' \<and> all_outstanding_zero pull_data')"
  using dispatcher_quits_iff_idle [OF assms] main_loop_success_only_if_idle [OF assms]
  by blast

theorem C1_loop_quits_with_success_iff_idle_witness:
  "metadata_objects_to_scan (waiting_pull_data\<lparr>metadata_objects_to_fetch := Some [PULL_MSG_MAIN_IDLE 1]\<rparr>) \<noteq> None \<and>
   \<not> loop_quit (waiting_pull_data\<lparr>metadata_objects_to_fetch := Some [PULL_MSG_MAIN_IDLE 1]\<rparr>) \<and>
   \<not> caught_error (waiting_pull_data\<lparr>metadata_objects_to_fetch := Some [PULL_MSG_MAIN_IDLE 1]\<rparr>) \<and>
   on_metadata_objects_to_fetch_ready
     (waiting_pull_data\<lparr>metadata_objects_to_fetch := Some [PULL_MSG_MAIN_IDLE 1]\<rparr>) =
     Inr (waiting_pull_data\<lparr>metadata_objects_to_fetch := Some [], metadata_scan_idle := True,
            loop_quit := True\<rparr>) \<and>
   loop_quits_with_success
     (waiting_pull_data\<lparr>metadata_objects_to_fetch := Some [], metadata_scan_idle := True,
        loop_quit := True\<rparr>) \<and>
   on_metadata_objects_to_fetch_ready
     (waiting_pull_data\<lparr>metadata_objects_to_fetch := Some [PULL_MSG_MAIN_IDLE 1],
        n_outstanding_content_fetches := 1\<rparr>) =
     Inr (waiting_pull_data\<lparr>metadata_objects_to_fetch := Some [], metadata_scan_idle := True,
            n_outstanding_content_fetches := 1\<rparr>) \<and>
   \<not> loop_quits_with_success
     (waiting_pull_data\<lparr>metadata_objects_to_fetch := Some [], metadata_scan_idle := True,
        n_outstanding_content_fetches := 1\<rparr>)"
  using C1_loop_quits_with_success_iff_idle
    [of "waiting_pull_data\<lparr>metadata_objects_to_fetch := Some [PULL_MSG_MAIN_IDLE 1]\<rparr>"]
    C1_loop_quits_with_success_iff_idle
    [of "waiting_pull_data\<lparr>metadata_objects_to_fetch := Some [PULL_MSG_MAIN_IDLE 1],
           n_outstanding_content_fetches := 1\<rparr>"]
  by (simp add: waiting_pull_data_def pull_data_init_def on_metadata_objects_to_fetch_ready_def
        ot_waitable_queue_pop_def fetch_ready_message_def
        check_outstanding_requests_handle_error_def throw_async_error_def
        loop_quits_with_success_def all_outstanding_zero_def)

text \<open>
  Claim C2, as amended. When the dispatcher takes a \<^verbatim>\<open>SCAN_IDLE\<close> message from the fetch
  queue and the scan-idle flag is clear, it increments \<^verbatim>\<open>idle_serial\<close> and pushes
  \<^verbatim>\<open>MAIN_IDLE\<close> with the new serial on the scan queue; when the flag is set it does
  neither. (The claim as written has the two cases the other way round.)
\<close>

theorem C2_scan_idle_sends_main_idle_when_not_idle:
  assumes "metadata_objects_to_fetch pull_data = Some (PULL_MSG_SCAN_IDLE serial # rest)"
    and "metadata_objects_to_scan pull_data = Some q"
  shows "\<exists>pull_data'. on_metadata_objects_to_fetch_ready pull_data = Inr pull_data' \<and>
           (if metadata_scan_idle pull_data
            then idle_serial pull_data' = idle_serial pull_data \<and>
                 metadata_objects_to_scan pull_data' = Some q
            else idle_serial pull_data' = idle_serial pull_data + 1 \<and>
                 metadata_objects_to_scan pull_data' =
                   Some (q @ [PULL_MSG_MAIN_IDLE (idle_serial pull_data + 1)]))"
  using assms
  by (simp add: on_metadata_objects_to_fetch_ready_def ot_waitable_queue_pop_def
        fetch_ready_message_def ot_waitable_queue_push_def)

theorem C2_scan_idle_sends_main_idle_when_not_idle_witness:
  "metadata_objects_to_fetch (waiting_pull_data\<lparr>metadata_objects_to_fetch := Some [PULL_MSG_SCAN_IDLE 0]\<rparr>) =
     Some [PULL_MSG_SCAN_IDLE 0] \<and>
   metadata_objects_to_scan (waiting_pull_data\<lparr>metadata_objects_to_fetch := Some [PULL_MSG_SCAN_IDLE 0]\<rparr>) =
     Some [] \<and>
   \<not> metadata_scan_idle (waiting_pull_data\<lparr>metadata_objects_to_fetch := Some [PULL_MSG_SCAN_IDLE 0]\<rparr>) \<and>
   on_metadata_objects_to_fetch_ready
     (waiting_pull_data\<lparr>metadata_objects_to_fetch := Some [PULL_MSG_SCAN_IDLE 0]\<rparr>) =
     Inr (waiting_pull_data\<lparr>metadata_objects_to_fetch := Some [], idle_serial := 2,
            metadata_objects_to_scan := Some [PULL_MSG_MAIN_IDLE 2]\<rparr>)"
  using C2_scan_idle_sends_main_idle_when_not_idle
    [of "waiting_pull_data\<lparr>metadata_objects_to_fetch := Some [PULL_MSG_SCAN_IDLE 0]\<rparr>" 0 "[]" "[]"]
  by (simp add: waiting_pull_data_def pull_data_init_def on_metadata_objects_to_fetch_ready_def
        ot_waitable_queue_pop_def fetch_ready_message_def ot_waitable_queue_push_def
        check_outstanding_requests_handle_error_def throw_async_error_def)

theorem C2_scan_idle_while_idle_counterexample:
  "metadata_scan_idle
     (waiting_pull_data\<lparr>metadata_objects_to_fetch := Some [PULL_MSG_SCAN_IDLE 0],
        metadata_scan_idle := True, n_outstanding_content_fetches := 1\<rparr>) \<and>
   on_metadata_objects_to_fetch_ready
     (waiting_pull_data\<lparr>metadata_objects_to_fetch := Some [PULL_MSG_SCAN_IDLE 0],
        metadata_scan_idle := True, n_outstanding_content_fetches := 1\<rparr>) =
     Inr (waiting_pull_data\<lparr>metadata_objects_to_fetch := Some [],
            metadata_scan_idle := True, n_outstanding_content_fetches := 1\<rparr>) \<and>
   idle_serial
     (waiting_pull_data\<lparr>metadata_objects_to_fetch := Some [],
        metadata_scan_idle := True, n_outstanding_content_fetches := 1\<rparr>) = 1 \<and>
   metadata_objects_to_scan
     (waiting_pull_data\<lparr>metadata_objects_to_fetch := Some [],
        metadata_scan_idle := True, n_outstanding_content_fetches := 1\<rparr>) = Some []"
  by (simp add: waiting_pull_data_def pull_data_init_def on_metadata_objects_to_fetch_ready_def
        ot_waitable_queue_pop_def fetch_ready_message_def ot_waitable_queue_push_def
        check_outstanding_requests_handle_error_def throw_async_error_def)

text \<open>
  Claim C3. When the dispatcher takes \<^verbatim>\<open>MAIN_IDLE(s)\<close> from the fetch queue: if \<open>s\<close>
  is the current \<^verbatim>\<open>idle_serial\<close> and the scan-idle flag is clear, the flag is set
  afterwards; if \<open>s\<close> differs from the current serial, the message is dropped and no
  field of the state changes because of it. What follows every message still follows:
  the check of the outstanding requests, which tells the loop to quit when the flag was
  already set and nothing is outstanding.
\<close>

theorem C3_main_idle_latches_or_is_stale:
  assumes "metadata_objects_to_fetch pull_data = Some (PULL_MSG_MAIN_IDLE s # rest)"
    and "metadata_objects_to_scan pull_data \<noteq> None"
  shows "(s = idle_serial pull_data \<and> \<not> metadata_scan_idle pull_data \<longrightarrow>
            (\<exists>pull_data'. on_metadata_objects_to_fetch_ready pull_data = Inr pull_data' \<and>
               metadata_scan_idle pull_data')) \<and>
         (s \<noteq> idle_serial pull_data \<longrightarrow>
            on_metadata_objects_to_fetch_ready pull_data =
              Inr (pull_data
                \<lparr>metadata_objects_to_fetch := Some rest,
                 loop_quit := loop_quit pull_data \<or>
                   (metadata_scan_idle pull_data \<and> all_outstanding_zero pull_data)\<rparr>))"
  using assms
  by (auto simp: on_metadata_objects_to_fetch_ready_def ot_waitable_queue_pop_def
        fetch_ready_message_def check_outstanding_requests_handle_error_def
        throw_async_error_def all_outstanding_zero_def Let_def)

theorem C3_main_idle_latches_or_is_stale_witness:
  "metadata_objects_to_fetch (waiting_pull_data\<lparr>metadata_objects_to_fetch := Some [PULL_MSG_MAIN_IDLE 1], n_outstanding_metadata_fetches := 2\<rparr>) =
     Some [PULL_MSG_MAIN_IDLE 1] \<and>
   metadata_objects_to_scan (waiting_pull_data\<lparr>metadata_objects_to_fetch := Some [PULL_MSG_MAIN_IDLE 1], n_outstanding_metadata_fetches := 2\<rparr>) \<noteq> None \<and>
   1 = idle_serial (waiting_pull_data\<lparr>metadata_objects_to_fetch := Some [PULL_MSG_MAIN_IDLE 1], n_outstanding_metadata_fetches := 2\<rparr>) \<and>
   \<not> metadata_scan_idle (waiting_pull_data\<lparr>metadata_objects_to_fetch := Some [PULL_MSG_MAIN_IDLE 1], n_outstanding_metadata_fetches := 2\<rparr>) \<and>
   on_metadata_objects_to_fetch_ready
     (waiting_pull_data\<lparr>metadata_objects_to_fetch := Some [PULL_MSG_MAIN_IDLE 1], n_outstanding_metadata_fetches := 2\<rparr>) =
     Inr (waiting_pull_data\<lparr>metadata_objects_to_fetch := Some [], n_outstanding_metadata_fetches := 2,
            metadata_scan_idle := True\<rparr>) \<and>
   metadata_objects_to_fetch (waiting_pull_data\<lparr>metadata_objects_to_fetch := Some [PULL_MSG_MAIN_IDLE 7], n_outstanding_metadata_fetches := 2\<rparr>) =
     Some [PULL_MSG_MAIN_IDLE 7] \<and>
   7 \<noteq> idle_serial (waiting_pull_data\<lparr>metadata_objects_to_fetch := Some [PULL_MSG_MAIN_IDLE 7], n_outstanding_metadata_fetches := 2\<rparr>) \<and>
   on_metadata_objects_to_fetch_ready
     (waiting_pull_data\<lparr>metadata_objects_to_fetch := Some [PULL_MSG_MAIN_IDLE 7], n_outstanding_metadata_fetches := 2\<rparr>) =
     Inr (waiting_pull_data\<lparr>metadata_objects_to_fetch := Some [], n_outstanding_metadata_fetches := 2\<rparr>)"
  using C3_main_idle_latches_or_is_stale
    [of "waiting_pull_data\<lparr>metadata_objects_to_fetch := Some [PULL_MSG_MAIN_IDLE 1], n_outstanding_metadata_fetches := 2\<rparr>" 1 "[]"]
    C3_main_idle_latches_or_is_stale
    [of "waiting_pull_data\<lparr>metadata_objects_to_fetch := Some [PULL_MSG_MAIN_IDLE 7], n_outstanding_metadata_fetches := 2\<rparr>" 7 "[]"]
  by (simp add: waiting_pull_data_def pull_data_init_def on_metadata_objects_to_fetch_ready_def
        ot_waitable_queue_pop_def fetch_ready_message_def
        check_outstanding_requests_handle_error_def throw_async_error_def all_outstanding_zero_def
        Let_def)

lemma stage_mismatch_aborts:
  "checksum \<noteq> fst object \<Longrightarrow> \<exists>a. on_metadata_staged pull_data object (Inr checksum) = Inl a"
  "checksum \<noteq> fst object \<Longrightarrow> \<exists>a. content_fetch_on_stage_complete pull_data object (Inr checksum) = Inl a"
  by (simp_all add: on_metadata_staged_def content_fetch_on_stage_complete_def)


subsection \<open>The coordinator\<close>

lemma pull_stops_at_remote_mode:
  "pull_remote_mode env = Inl e \<Longrightarrow>
   ostree_builtin_pull env refs remote_name branches = (Some e, refs, [])"
  by (simp add: ostree_builtin_pull_def)

lemma pull_events_after_remote_mode:
  assumes "ostree_builtin_pull env refs remote_name branches = (r, refs', evs)" "evs \<noteq> []"
  shows "\<exists>m. pull_remote_mode env = Inr m"
  using assms by (cases "pull_remote_mode env") (auto simp: ostree_builtin_pull_def)

lemma pull_remote_mode_Inr:
  "pull_remote_mode env = Inr m \<Longrightarrow> m = OSTREE_REPO_MODE_ARCHIVE_Z2"
  by (auto simp: pull_remote_mode_def split: sum.splits if_splits)

text \<open>
  Claim C8. When the remote's configuration loads and its core.mode resolves to a mode:
  if the mode is not archive-z2, \<^verbatim>\<open>ostree_builtin_pull\<close> returns the error
  \<^verbatim>\<open>Can't pull from archives with mode "..."\<close> having asked nothing of the repository
  or of the main loop (no transaction, no pull loop, hence no object fetched); the mode
  check is passed exactly when the mode is archive-z2.
\<close>

theorem C8_pull_refuses_other_modes:
  assumes "load_remote_repo_config env = Inr remote_config"
    and "ot_keyfile_get_value_with_default env remote_config ''core'' ''mode'' ''bare'' =
           Inr remote_mode_str"
    and "ostree_repo_mode_from_string env remote_mode_str = Inr remote_mode"
  shows "(remote_mode \<noteq> OSTREE_REPO_MODE_ARCHIVE_Z2 \<longrightarrow>
            ostree_builtin_pull env refs remote_name branches =
              (Some (G_IO_ERROR_FAILED (cannot_pull_from_mode remote_mode_str)), refs, [])) \<and>
         (pull_remote_mode env = Inr OSTREE_REPO_MODE_ARCHIVE_Z2 \<longleftrightarrow>
            remote_mode = OSTREE_REPO_MODE_ARCHIVE_Z2) \<and>
         (\<forall>r refs' evs. ostree_builtin_pull env refs remote_name branches = (r, refs', evs) \<longrightarrow>
            evs \<noteq> [] \<longrightarrow> remote_mode = OSTREE_REPO_MODE_ARCHIVE_Z2)"
proof -
  have m: "pull_remote_mode env =
             (if remote_mode \<noteq> OSTREE_REPO_MODE_ARCHIVE_Z2
              then Inl (G_IO_ERROR_FAILED (cannot_pull_from_mode remote_mode_str))
              else Inr remote_mode)"
    using assms by (simp add: pull_remote_mode_def)
  have a: "remote_mode \<noteq> OSTREE_REPO_MODE_ARCHIVE_Z2 \<longrightarrow>
            ostree_builtin_pull env refs remote_name branches =
              (Some (G_IO_ERROR_FAILED (cannot_pull_from_mode remote_mode_str)), refs, [])"
    using m by (simp add: pull_stops_at_remote_mode)
  have b: "pull_remote_mode env = Inr OSTREE_REPO_MODE_ARCHIVE_Z2 \<longleftrightarrow>
            remote_mode = OSTREE_REPO_MODE_ARCHIVE_Z2"
    using m by auto
  have c: "remote_mode = OSTREE_REPO_MODE_ARCHIVE_Z2"
    if "ostree_builtin_pull env refs remote_name branches = (r, refs', evs)" "evs \<noteq> []"
    for r refs' evs
    using pull_events_after_remote_mode [OF that] m by (auto split: if_splits)
  from a b c show ?thesis by blast
qed

theorem C8_pull_refuses_other_modes_witness:
  "load_remote_repo_config (example_env ''bare'') = Inr (config_with_mode ''bare'') \<and>
   ot_keyfile_get_value_with_default (example_env ''bare'')
     (config_with_mode ''bare'') ''core'' ''mode'' ''bare'' = Inr ''bare'' \<and>
   ostree_repo_mode_from_string (example_env ''bare'') ''bare'' =
     Inr OSTREE_REPO_MODE_BARE \<and>
   OSTREE_REPO_MODE_BARE \<noteq> OSTREE_REPO_MODE_ARCHIVE_Z2 \<and>
   ostree_builtin_pull (example_env ''bare'') Map.empty ''origin'' [''main''] =
     (Some (G_IO_ERROR_FAILED (cannot_pull_from_mode ''bare'')), Map.empty, []) \<and>
   load_remote_repo_config (example_env ''archive-z2'') =
     Inr (config_with_mode ''archive-z2'') \<and>
   ostree_repo_mode_from_string (example_env ''archive-z2'') ''archive-z2'' =
     Inr OSTREE_REPO_MODE_ARCHIVE_Z2 \<and>
   pull_remote_mode (example_env ''archive-z2'') = Inr OSTREE_REPO_MODE_ARCHIVE_Z2"
  using C8_pull_refuses_other_modes
      [of "example_env ''bare''" "config_with_mode ''bare''" "''bare''"
          OSTREE_REPO_MODE_BARE Map.empty "''origin''" "[''main'']"]
    C8_pull_refuses_other_modes
      [of "example_env ''archive-z2''" "config_with_mode ''archive-z2''"
          "''archive-z2''" OSTREE_REPO_MODE_ARCHIVE_Z2 Map.empty "''origin''" "[''main'']"]
  by (simp add: example_env_def load_remote_repo_config_def repo_mode_from_string_model_def)

lemma pull_write_refs_events:
  "pull_write_refs env remote_name refs updated = (r, refs', evs) \<Longrightarrow>
     \<forall>ev \<in> set evs. is_write_ref ev"
proof (induction updated arbitrary: refs r refs' evs)
  case Nil
  then show ?case by simp
next
  case (Cons a updated)
  obtain ref checksum where a: "a = (ref, checksum)" by (cases a)
  show ?case
  proof (cases "ostree_repo_write_ref env refs remote_name ref checksum")
    case (Inl e)
    with Cons.prems a show ?thesis by (auto simp: is_write_ref_def)
  next
    case (Inr refs1)
    obtain r1 refs2 evs1 where p: "pull_write_refs env remote_name refs1 updated = (r1, refs2, evs1)"
      by (cases "pull_write_refs env remote_name refs1 updated")
    from Cons.IH [OF p] Cons.prems a Inr p show ?thesis
      by (auto simp: is_write_ref_def)
  qed
qed

lemma pull_events_shape:
  assumes "ostree_builtin_pull env refs remote_name branches = (r, refs', evs)"
  shows "(refs' = refs \<and> r \<noteq> None \<and>
            (evs = [] \<or> evs = [Prepare_transaction] \<or>
             (\<exists>pull_data. evs = [Prepare_transaction, Run_mainloop pull_data] \<and>
                run_mainloop_monitor_fetcher env pull_data \<noteq> None) \<or>
             (\<exists>pull_data e. evs = [Prepare_transaction, Run_mainloop pull_data, Commit_transaction (Some e)] \<and>
                run_mainloop_monitor_fetcher env pull_data = None \<and>
                commit_transaction_error env = Some e))) \<or>
         (\<exists>pull_data updated_refs wevs.
            evs = [Prepare_transaction, Run_mainloop pull_data, Commit_transaction None] @ wevs \<and>
            run_mainloop_monitor_fetcher env pull_data = None \<and>
            commit_transaction_error env = None \<and>
            pull_write_refs env remote_name refs updated_refs = (r, refs', wevs))"
  using assms
  by (auto simp: ostree_builtin_pull_def Let_def split: sum.splits option.splits prod.splits)


text \<open>
  Claim C7. In what \<^verbatim>\<open>ostree_builtin_pull\<close> asks of the repository, every call of
  \<^verbatim>\<open>ostree_repo_write_ref\<close> comes strictly after the call of
  \<^verbatim>\<open>ostree_repo_commit_transaction\<close> that returned success, which itself follows a wait
  for the pull that returned \<^verbatim>\<open>TRUE\<close>. If the wait fails or the commit fails, no ref is
  written: there is no such call, the refs are the ones before the pull, and the pull
  returns an error.
\<close>

theorem C7_refs_written_only_after_commit:
  assumes "ostree_builtin_pull env refs remote_name branches = (r, refs', evs)"
  shows "(\<forall>i < length evs. is_write_ref (evs ! i) \<longrightarrow>
            (\<exists>j < i. evs ! j = Commit_transaction None) \<and>
            (\<exists>j < i. \<exists>pull_data. evs ! j = Run_mainloop pull_data \<and>
               run_mainloop_monitor_fetcher env pull_data = None)) \<and>
         ((\<exists>pull_data. Run_mainloop pull_data \<in> set evs \<and>
             run_mainloop_monitor_fetcher env pull_data \<noteq> None) \<or>
          commit_transaction_error env \<noteq> None \<longrightarrow>
            (\<forall>ev \<in> set evs. \<not> is_write_ref ev) \<and> refs' = refs \<and> r \<noteq> None)"
proof -
  from pull_events_shape [OF assms] consider
      (failed) "refs' = refs" "r \<noteq> None" "\<forall>ev \<in> set evs. \<not> is_write_ref ev"
    | (written) pull_data updated_refs wevs where
        "evs = [Prepare_transaction, Run_mainloop pull_data, Commit_transaction None] @ wevs"
        "run_mainloop_monitor_fetcher env pull_data = None"
        "commit_transaction_error env = None"
        "pull_write_refs env remote_name refs updated_refs = (r, refs', wevs)"
    by (fastforce simp: is_write_ref_def)
  then show ?thesis
  proof cases
    case failed
    have "\<not> is_write_ref (evs ! i)" if "i < length evs" for i
      using failed(3) that nth_mem by blast
    with failed show ?thesis by blast
  next
    case written
    from pull_write_refs_events [OF written(4)] have w: "\<forall>ev \<in> set wevs. is_write_ref ev" .
    have order: "(\<exists>j < i. evs ! j = Commit_transaction None) \<and>
            (\<exists>j < i. \<exists>pd. evs ! j = Run_mainloop pd \<and> run_mainloop_monitor_fetcher env pd = None)"
      if "i < length evs" "is_write_ref (evs ! i)" for i
    proof -
      have "3 \<le> i"
      proof (rule ccontr)
        assume "\<not> 3 \<le> i"
        then have "i = 0 \<or> i = 1 \<or> i = 2" by arith
        with that(2) written(1) show False by (auto simp: is_write_ref_def)
      qed
      then have "2 < i" "1 < i" by simp_all
      moreover have "evs ! 2 = Commit_transaction None" "evs ! 1 = Run_mainloop pull_data"
        using written(1) by simp_all
      ultimately show ?thesis using written(2) by blast
    qed
    have no_run: "pd = pull_data" if "Run_mainloop pd \<in> set evs" for pd
      using that w written(1) by (auto simp: is_write_ref_def)
    have second: "\<not> ((\<exists>pd. Run_mainloop pd \<in> set evs \<and>
             run_mainloop_monitor_fetcher env pd \<noteq> None) \<or>
          commit_transaction_error env \<noteq> None)"
      using no_run written(2,3) by auto
    show ?thesis
    proof (intro conjI allI impI)
      fix i assume "i < length evs" "is_write_ref (evs ! i)"
      from order [OF this]
      show "\<exists>j<i. evs ! j = Commit_transaction None"
        and "\<exists>j<i. \<exists>pd. evs ! j = Run_mainloop pd \<and> run_mainloop_monitor_fetcher env pd = None"
        by simp_all
    next
      assume a: "(\<exists>pd. Run_mainloop pd \<in> set evs \<and>
             run_mainloop_monitor_fetcher env pd \<noteq> None) \<or>
          commit_transaction_error env \<noteq> None"
      from second a have False by (rule notE)
      then show "\<forall>ev\<in>set evs. \<not> is_write_ref ev" "refs' = refs" "r \<noteq> None"
        by simp_all
    qed
  qed
qed

lemma g_hash_table_insert_keys:
  "fst ` set (g_hash_table_insert t k v) = insert k (fst ` set t)"
proof (induction t)
  case Nil
  show ?case by simp
next
  case (Cons a t)
  obtain k' v' where a: "a = (k', v')" by (cases a)
  show ?case
  proof (cases "k' = k")
    case True
    with a show ?thesis by simp
  next
    case False
    with a Cons.IH show ?thesis by (simp add: insert_commute)
  qed
qed

lemma g_hash_table_insert_distinct:
  "distinct (map fst t) \<Longrightarrow> distinct (map fst (g_hash_table_insert t k v))"
proof (induction t)
  case Nil
  then show ?case by simp
next
  case (Cons a t)
  obtain k' v' where a: "a = (k', v')" by (cases a)
  have "k' \<notin> fst ` set (g_hash_table_insert t k v)" if "k' \<noteq> k"
    using that Cons.prems a by (simp add: g_hash_table_insert_keys)
  with Cons a show ?case by auto
qed

lemma g_hash_table_insert_fresh:
  "k \<notin> fst ` set t \<Longrightarrow> g_hash_table_insert t k v = t @ [(k, v)]"
  by (induction t) auto

lemma pull_arguments_distinct:
  "pull_arguments env bs (c, t) = Inr (c', t') \<Longrightarrow> distinct (map fst t) \<Longrightarrow> distinct (map fst t')"
proof (induction bs arbitrary: c t)
  case Nil
  then show ?case by simp
next
  case (Cons b bs)
  show ?case
  proof (cases "ostree_validate_checksum_string env b")
    case True
    with Cons.prems(1) have
      "pull_arguments env bs (if b \<in> set c then c else c @ [b], t) = Inr (c', t')"
      by simp
    from Cons.IH [OF this Cons.prems(2)] show ?thesis .
  next
    case False
    with Cons.prems(1) obtain contents where
      f: "fetch_ref_contents env b = Inr contents"
      and p: "pull_arguments env bs (c, g_hash_table_insert t b contents) = Inr (c', t')"
      by (auto split: sum.splits)
    from Cons.IH [OF p g_hash_table_insert_distinct [OF Cons.prems(2)]] show ?thesis .
  qed
qed

lemma pull_configured_branches_distinct:
  "pull_configured_branches env bs t = Inr t' \<Longrightarrow> distinct (map fst t) \<Longrightarrow> distinct (map fst t')"
proof (induction bs arbitrary: t)
  case Nil
  then show ?case by simp
next
  case (Cons b bs)
  from Cons.prems(1) obtain contents where
    p: "pull_configured_branches env bs (g_hash_table_insert t b contents) = Inr t'"
    by (auto split: sum.splits)
  from Cons.IH [OF p g_hash_table_insert_distinct [OF Cons.prems(2)]] show ?case .
qed

lemma parse_ref_summary_lines_distinct:
  "parse_ref_summary_lines env ls t = Inr t' \<Longrightarrow> distinct (map fst t) \<Longrightarrow> distinct (map fst t')"
proof (induction ls arbitrary: t)
  case Nil
  then show ?case by simp
next
  case (Cons l ls)
  show ?case
  proof (cases "l = []")
    case True
    with Cons show ?thesis by simp
  next
    case False
    with Cons.prems(1) have
      "parse_ref_summary_lines env ls
         (g_hash_table_insert t (tl (dropWhile (\<lambda>c. c \<noteq> CHR '' '') l))
            (takeWhile (\<lambda>c. c \<noteq> CHR '' '') l)) = Inr t'"
      by (simp add: Let_def split: if_splits)
    from Cons.IH [OF this g_hash_table_insert_distinct [OF Cons.prems(2)]] show ?thesis .
  qed
qed

lemma pull_requested_distinct:
  assumes "pull_requested env branches = Inr (commits, requested)"
  shows "distinct (map fst requested)"
proof (cases "branches \<noteq> []")
  case True
  with assms have "pull_arguments env branches ([], []) = Inr (commits, requested)"
    by (simp add: pull_requested_def)
  from pull_arguments_distinct [OF this] show ?thesis by simp
next
  case False
  show ?thesis
  proof (cases "configured_branches env")
    case (Inl e)
    with False assms obtain summary_data where
      "parse_ref_summary env summary_data = Inr requested"
      by (cases e) (auto simp: pull_requested_def split: sum.splits)
    then show ?thesis
      using parse_ref_summary_lines_distinct [of env _ "[]" requested]
      by (simp add: parse_ref_summary_def)
  next
    case (Inr configured)
    with False assms have "pull_configured_branches env configured [] = Inr requested"
      by (auto simp: pull_requested_def split: sum.splits)
    from pull_configured_branches_distinct [OF this] show ?thesis by simp
  qed
qed

lemma remote_ref_inj: "(remote_name @ ''/'' @ r1 = remote_name @ ''/'' @ r2) = (r1 = r2)"
  by simp

lemma pull_seed_refs_unchanged_step:
  "ostree_repo_resolve_rev env refs (remote_name @ ''/'' @ ref) = Inr (Some sha256) \<Longrightarrow>
   pull_seed_refs env refs remote_name (pull_data, updated_refs) ((ref, sha256) # rest) =
   pull_seed_refs env refs remote_name (pull_data, updated_refs) rest"
  by simp

lemma pull_seed_refs_all_unchanged:
  "\<forall>(ref, sha256) \<in> set requested.
      ostree_repo_resolve_rev env refs (remote_name @ ''/'' @ ref) = Inr (Some sha256) \<Longrightarrow>
   pull_seed_refs env refs remote_name acc requested = Inr acc"
proof (induction requested)
  case Nil
  then show ?case by simp
next
  case (Cons a requested)
  obtain ref sha256 where a: "a = (ref, sha256)" by (cases a)
  obtain pull_data updated_refs where acc: "acc = (pull_data, updated_refs)" by (cases acc)
  from Cons a acc show ?case by simp
qed

lemma pull_seed_refs_exact:
  assumes "pull_seed_refs env refs remote_name (pull_data, acc) requested = Inr (pull_data', updated_refs)"
    and "distinct (map fst requested)"
    and "fst ` set acc \<inter> fst ` set requested = {}"
  shows "updated_refs = acc @ changed_refs refs remote_name requested \<and>
         (\<forall>(ref, sha256) \<in> set requested. resolve_rev_error env (remote_name @ ''/'' @ ref) = None)"
  using assms
proof (induction requested arbitrary: pull_data acc)
  case Nil
  then show ?case by (simp add: changed_refs_def)
next
  case (Cons a requested)
  obtain ref sha256 where a: "a = (ref, sha256)" by (cases a)
  from Cons.prems(1) a obtain original_rev where
    r: "ostree_repo_resolve_rev env refs (remote_name @ ''/'' @ ref) = Inr original_rev"
    by (auto split: sum.splits)
  then have e: "resolve_rev_error env (remote_name @ ''/'' @ ref) = None"
    and o: "original_rev = refs (remote_name @ ''/'' @ ref)"
    by (auto simp: ostree_repo_resolve_rev_def split: option.splits)
  have d: "distinct (map fst requested)" and fresh: "ref \<notin> fst ` set requested"
    using Cons.prems(2) a by auto
  have nacc: "ref \<notin> fst ` set acc" using Cons.prems(3) a by auto
  show ?case
  proof (cases "original_rev = Some sha256")
    case True
    with Cons.prems(1) a r have
      p: "pull_seed_refs env refs remote_name (pull_data, acc) requested = Inr (pull_data', updated_refs)"
      by simp
    have "fst ` set acc \<inter> fst ` set requested = {}" using Cons.prems(3) by auto
    from Cons.IH [OF p d this] True o a e show ?thesis
      by (simp add: changed_refs_def)
  next
    case False
    with Cons.prems(1) a r obtain pd1 where
      p: "pull_seed_refs env refs remote_name (pd1, g_hash_table_insert acc ref sha256) requested =
            Inr (pull_data', updated_refs)"
      by simp
    have i: "g_hash_table_insert acc ref sha256 = acc @ [(ref, sha256)]"
      using nacc by (rule g_hash_table_insert_fresh)
    have "fst ` set (acc @ [(ref, sha256)]) \<inter> fst ` set requested = {}"
      using Cons.prems(3) fresh by auto
    from Cons.IH [OF p [unfolded i] d this] False o a e show ?thesis
      by (simp add: changed_refs_def)
  qed
qed

lemma pull_write_refs_result:
  assumes "pull_write_refs env remote_name refs updated = (r, refs', evs)"
  shows "(\<forall>k. k \<notin> (\<lambda>(ref, c). remote_name @ ''/'' @ ref) ` set updated \<longrightarrow> refs' k = refs k) \<and>
         (\<forall>ev \<in> set evs. \<exists>ref c e. ev = Write_ref remote_name ref c e \<and> (ref, c) \<in> set updated) \<and>
         (r = None \<longrightarrow> distinct (map fst updated) \<longrightarrow>
            (\<forall>(ref, c) \<in> set updated. refs' (remote_name @ ''/'' @ ref) = Some c))"
  using assms
proof (induction updated arbitrary: refs r refs' evs)
  case Nil
  then show ?case by simp
next
  case (Cons a updated)
  obtain ref c where a: "a = (ref, c)" by (cases a)
  show ?case
  proof (cases "write_ref_error env remote_name ref")
    case (Some e)
    with Cons.prems a show ?thesis by (auto simp: ostree_repo_write_ref_def)
  next
    case None
    define refs1 where "refs1 = refs(remote_name @ ''/'' @ ref \<mapsto> c)"
    obtain r1 refs2 evs1 where
      p: "pull_write_refs env remote_name refs1 updated = (r1, refs2, evs1)"
      by (cases "pull_write_refs env remote_name refs1 updated")
    from Cons.prems a None p have res: "r = r1" "refs' = refs2"
      "evs = Write_ref remote_name ref c None # evs1"
      by (simp_all add: ostree_repo_write_ref_def refs1_def)
    note ih = Cons.IH [OF p]
    have frame: "refs' k = refs k"
      if "k \<notin> (\<lambda>(ref, c). remote_name @ ''/'' @ ref) ` set (a # updated)" for k
    proof -
      from that a have "k \<noteq> remote_name @ ''/'' @ ref"
        and "k \<notin> (\<lambda>(ref, c). remote_name @ ''/'' @ ref) ` set updated" by auto
      with ih res show ?thesis by (simp add: refs1_def)
    qed
    have events: "\<exists>ref' c' e. ev = Write_ref remote_name ref' c' e \<and> (ref', c') \<in> set (a # updated)"
      if "ev \<in> set evs" for ev
      using that ih res a by auto
    have written: "refs' (remote_name @ ''/'' @ ref') = Some c'"
      if "r = None" "distinct (map fst (a # updated))" "(ref', c') \<in> set (a # updated)" for ref' c'
    proof (cases "(ref', c') \<in> set updated")
      case True
      with that ih res show ?thesis by auto
    next
      case False
      with that(3) a have eq: "ref' = ref" "c' = c" by auto
      have "ref \<notin> fst ` set updated" using that(2) a by auto
      then have "remote_name @ ''/'' @ ref \<notin> (\<lambda>(ref, c). remote_name @ ''/'' @ ref) ` set updated"
        by (auto simp: image_iff)
      with ih res have "refs' (remote_name @ ''/'' @ ref) = refs1 (remote_name @ ''/'' @ ref)"
        by simp
      with eq show ?thesis by (simp add: refs1_def)
    qed
    from frame events written show ?thesis by blast
  qed
qed

lemma pull_written_shape:
  assumes "ostree_builtin_pull env refs remote_name branches = (r, refs', evs)"
    and "pull_requested env branches = Inr (commits, requested)"
  shows "(refs' = refs \<and> (\<forall>ev \<in> set evs. \<not> is_write_ref ev)) \<or>
         (\<exists>pull_data pull_data' updated_refs wevs.
            pull_seed_refs env refs remote_name
              (pull_seed_commits
                 (pull_data_init\<lparr>metadata_objects_to_fetch := Some [],
                    metadata_objects_to_scan := Some []\<rparr>) commits, []) requested =
              Inr (pull_data, updated_refs) \<and>
            evs = [Prepare_transaction, Run_mainloop pull_data', Commit_transaction None] @ wevs \<and>
            pull_write_refs env remote_name refs updated_refs = (r, refs', wevs))"
  using assms
  by (auto simp: ostree_builtin_pull_def Let_def is_write_ref_def
        split: sum.splits option.splits prod.splits)

lemma pull_success_parts:
  assumes "ostree_builtin_pull env refs remote_name branches = (None, refs', evs)"
    and "pull_requested env branches = Inr (commits, requested)"
  shows "\<exists>m pull_data updated_refs wevs.
            pull_remote_mode env = Inr m \<and>
            prepare_transaction_error env = None \<and>
            commit_transaction_error env = None \<and>
            pull_seed_refs env refs remote_name
              (pull_seed_commits
                 (pull_data_init\<lparr>metadata_objects_to_fetch := Some [],
                    metadata_objects_to_scan := Some []\<rparr>) commits, []) requested =
              Inr (pull_data, updated_refs) \<and>
            pull_write_refs env remote_name refs updated_refs = (None, refs', wevs)"
  using assms
  by (auto simp: ostree_builtin_pull_def Let_def
        split: sum.splits option.splits prod.splits)

lemma changed_refs_keys:
  assumes "distinct (map fst requested)" "(ref, sha256) \<in> set requested"
    and "refs (remote_name @ ''/'' @ ref) = Some sha256"
  shows "ref \<notin> fst ` set (changed_refs refs remote_name requested)"
proof
  assume "ref \<in> fst ` set (changed_refs refs remote_name requested)"
  then obtain c where c: "(ref, c) \<in> set requested" "refs (remote_name @ ''/'' @ ref) \<noteq> Some c"
    by (auto simp: changed_refs_def)
  from assms(1,2) c(1) have "c = sha256"
    by (meson eq_key_imp_eq_value)
  with c(2) assms(3) show False by simp
qed

lemma changed_refs_distinct:
  "distinct (map fst requested) \<Longrightarrow> distinct (map fst (changed_refs refs remote_name requested))"
  by (simp add: changed_refs_def distinct_map_filter)

lemma pull_leaves_unchanged_ref:
  assumes pull: "ostree_builtin_pull env refs remote_name branches = (r, refs', evs)"
    and req: "pull_requested env branches = Inr (commits, requested)"
    and mem: "(ref, sha256) \<in> set requested"
    and same: "refs (remote_name @ ''/'' @ ref) = Some sha256"
  shows "(\<forall>c e. Write_ref remote_name ref c e \<notin> set evs) \<and>
         refs' (remote_name @ ''/'' @ ref) = Some sha256"
proof -
  note d = pull_requested_distinct [OF req]
  from pull_written_shape [OF pull req] show ?thesis
  proof
    assume "refs' = refs \<and> (\<forall>ev \<in> set evs. \<not> is_write_ref ev)"
    with same show ?thesis by (auto simp: is_write_ref_def)
  next
    assume "\<exists>pull_data pull_data' updated_refs wevs.
            pull_seed_refs env refs remote_name
              (pull_seed_commits
                 (pull_data_init\<lparr>metadata_objects_to_fetch := Some [],
                    metadata_objects_to_scan := Some []\<rparr>) commits, []) requested =
              Inr (pull_data, updated_refs) \<and>
            evs = [Prepare_transaction, Run_mainloop pull_data', Commit_transaction None] @ wevs \<and>
            pull_write_refs env remote_name refs updated_refs = (r, refs', wevs)"
    then obtain pull_data pull_data' updated_refs wevs where
      s: "pull_seed_refs env refs remote_name
              (pull_seed_commits
                 (pull_data_init\<lparr>metadata_objects_to_fetch := Some [],
                    metadata_objects_to_scan := Some []\<rparr>) commits, []) requested =
              Inr (pull_data, updated_refs)"
      and e: "evs = [Prepare_transaction, Run_mainloop pull_data', Commit_transaction None] @ wevs"
      and w: "pull_write_refs env remote_name refs updated_refs = (r, refs', wevs)"
      by blast
    from pull_seed_refs_exact [OF s d] have u: "updated_refs = changed_refs refs remote_name requested"
      by simp
    from changed_refs_keys [where refs = refs and remote_name = remote_name, OF d mem same] u have k: "ref \<notin> fst ` set updated_refs" by simp
    then have k': "remote_name @ ''/'' @ ref \<notin> (\<lambda>(ref, c). remote_name @ ''/'' @ ref) ` set updated_refs"
      by (auto simp: image_iff)
    note res = pull_write_refs_result [OF w]
    from res k' same have "refs' (remote_name @ ''/'' @ ref) = Some sha256" by simp
    moreover have "Write_ref remote_name ref c e \<notin> set evs" for c e
    proof
      assume "Write_ref remote_name ref c e \<in> set evs"
      with e have "Write_ref remote_name ref c e \<in> set wevs" by simp
      with res have "(ref, c) \<in> set updated_refs" by fastforce
      with k show False by (auto simp: image_iff)
    qed
    ultimately show ?thesis by simp
  qed
qed

lemma idle_seed_is_seed:
  "(let pull_data = pull_data_init
          \<lparr>metadata_objects_to_fetch := Some [], metadata_objects_to_scan := Some []\<rparr>;
        pull_data = pull_data\<lparr>idle_serial := idle_serial pull_data + 1\<rparr>
    in pull_data
         \<lparr>metadata_objects_to_scan :=
            ot_waitable_queue_push (metadata_objects_to_scan pull_data)
              (PULL_MSG_MAIN_IDLE (idle_serial pull_data))\<rparr>) = idle_seed_pull_data"
  by (simp add: idle_seed_pull_data_def waiting_pull_data_def pull_data_init_def
        ot_waitable_queue_push_def)

lemma second_pull_is_idle:
  assumes first: "ostree_builtin_pull env refs remote_name branches = (None, refs1, evs1)"
    and req: "pull_requested env branches = Inr ([], requested)"
  shows "ostree_builtin_pull env refs1 remote_name branches =
           (case run_mainloop_monitor_fetcher env idle_seed_pull_data of
              Some e \<Rightarrow> (Some e, refs1, [Prepare_transaction, Run_mainloop idle_seed_pull_data])
            | None \<Rightarrow> (None, refs1,
                [Prepare_transaction, Run_mainloop idle_seed_pull_data, Commit_transaction None]))"
proof -
  note d = pull_requested_distinct [OF req]
  from pull_success_parts [OF first req] obtain m pull_data updated_refs wevs where
    m: "pull_remote_mode env = Inr m"
    and p: "prepare_transaction_error env = None"
    and c: "commit_transaction_error env = None"
    and s: "pull_seed_refs env refs remote_name
              (pull_seed_commits
                 (pull_data_init\<lparr>metadata_objects_to_fetch := Some [],
                    metadata_objects_to_scan := Some []\<rparr>) [], []) requested =
              Inr (pull_data, updated_refs)"
    and w: "pull_write_refs env remote_name refs updated_refs = (None, refs1, wevs)"
    by blast
  from pull_seed_refs_exact [OF s d] have
    u: "updated_refs = changed_refs refs remote_name requested"
    and ne: "\<forall>(ref, sha256) \<in> set requested. resolve_rev_error env (remote_name @ ''/'' @ ref) = None"
    by simp_all
  note res = pull_write_refs_result [OF w]
  have stored: "refs1 (remote_name @ ''/'' @ ref) = Some sha256"
    if mem: "(ref, sha256) \<in> set requested" for ref sha256
  proof (cases "refs (remote_name @ ''/'' @ ref) = Some sha256")
    case True
    from pull_leaves_unchanged_ref [OF first req mem True] show ?thesis by simp
  next
    case False
    with mem u have "(ref, sha256) \<in> set updated_refs" by (simp add: changed_refs_def)
    moreover have "distinct (map fst updated_refs)"
      using u changed_refs_distinct [OF d] by simp
    ultimately show ?thesis using res by fastforce
  qed
  have "\<forall>(ref, sha256) \<in> set requested.
      ostree_repo_resolve_rev env refs1 (remote_name @ ''/'' @ ref) = Inr (Some sha256)"
    using stored ne by (auto simp: ostree_repo_resolve_rev_def)
  from pull_seed_refs_all_unchanged [OF this] have
    s2: "pull_seed_refs env refs1 remote_name acc requested = Inr acc" for acc .
  show ?thesis
    using idle_seed_is_seed
    by (simp add: ostree_builtin_pull_def m req p c s2 Let_def split: option.splits)
qed

lemma example_env_fields:
  "fetch_uri_contents_utf8 (example_env c) [''config''] =
     Inr (''[core]'' @ [CHR 0x0A] @ ''mode='' @ c @ [CHR 0x0A])"
  "fetch_uri_contents_utf8 (example_env c) [''refs'', ''heads'', ''main''] =
     Inr (example_digest CHR ''a'' @ [CHR 0x0A])"
  "g_key_file_load_from_data (example_env c) contents = Inr (config_with_mode c)"
  "ot_keyfile_get_value_with_default (example_env c) keyfile section key default_value = Inr c"
  "ostree_repo_mode_from_string (example_env c) = repo_mode_from_string_model"
  "ostree_validate_checksum_string (example_env c) s = (length s = 64)"
  "prepare_transaction_error (example_env c) = None"
  "resolve_rev_error (example_env c) remote_ref = None"
  "run_mainloop_monitor_fetcher (example_env c) pull_data = None"
  "commit_transaction_error (example_env c) = None"
  "write_ref_error (example_env c) remote ref = None"
  by (simp_all add: example_env_def)

lemma example_chomp:
  "g_strchomp (example_digest CHR ''a'' @ [CHR 0x0A]) = example_digest CHR ''a''"
  by (simp add: g_strchomp_def example_digest_def g_ascii_isspace_def)

lemma example_remote_mode:
  "pull_remote_mode (example_env ''archive-z2'') = Inr OSTREE_REPO_MODE_ARCHIVE_Z2"
  by (simp add: pull_remote_mode_def load_remote_repo_config_def example_env_fields
        repo_mode_from_string_model_def)

lemma example_requested:
  "pull_requested (example_env c) [''main''] = Inr ([], [(''main'', example_digest CHR ''a'')])"
  by (simp add: pull_requested_def example_env_fields fetch_ref_contents_def example_chomp)
     (simp add: example_digest_def)

lemma example_first_pull:
  "ostree_builtin_pull (example_env ''archive-z2'') Map.empty ''origin'' [''main''] =
   (None, [''origin/main'' \<mapsto> example_digest CHR ''a''],
      [Prepare_transaction,
       Run_mainloop (waiting_pull_data\<lparr>metadata_objects_to_scan :=
          Some [PULL_MSG_SCAN (example_digest CHR ''a'', OSTREE_OBJECT_TYPE_COMMIT), PULL_MSG_MAIN_IDLE 1]\<rparr>),
       Commit_transaction None,
       Write_ref ''origin'' ''main'' (example_digest CHR ''a'') None])"
  by (simp add: ostree_builtin_pull_def example_requested example_remote_mode example_env_fields
     ostree_repo_resolve_rev_def ostree_repo_write_ref_def Let_def
     waiting_pull_data_def pull_data_init_def ot_waitable_queue_push_def)

lemma example_failed_pull:
  "ostree_builtin_pull
     ((example_env ''archive-z2'')
        \<lparr>run_mainloop_monitor_fetcher := (\<lambda>pull_data. Some (Collaborator_error ''Connection refused''))\<rparr>)
     Map.empty ''origin'' [''main''] =
   (Some (Collaborator_error ''Connection refused''), Map.empty,
      [Prepare_transaction,
       Run_mainloop (waiting_pull_data\<lparr>metadata_objects_to_scan :=
          Some [PULL_MSG_SCAN (example_digest CHR ''a'', OSTREE_OBJECT_TYPE_COMMIT), PULL_MSG_MAIN_IDLE 1]\<rparr>)])"
proof -
  have r: "pull_requested
     ((example_env ''archive-z2'')
        \<lparr>run_mainloop_monitor_fetcher := (\<lambda>pull_data. Some (Collaborator_error ''Connection refused''))\<rparr>)
      [''main''] = Inr ([], [(''main'', example_digest CHR ''a'')])"
    by (simp add: pull_requested_def example_env_fields fetch_ref_contents_def example_chomp)
       (simp add: example_digest_def)
  have m: "pull_remote_mode
     ((example_env ''archive-z2'')
        \<lparr>run_mainloop_monitor_fetcher := (\<lambda>pull_data. Some (Collaborator_error ''Connection refused''))\<rparr>)
      = Inr OSTREE_REPO_MODE_ARCHIVE_Z2"
    by (simp add: pull_remote_mode_def load_remote_repo_config_def example_env_fields
        repo_mode_from_string_model_def)
  show ?thesis
    by (simp add: ostree_builtin_pull_def r m example_env_fields
     ostree_repo_resolve_rev_def ostree_repo_write_ref_def Let_def
     waiting_pull_data_def pull_data_init_def ot_waitable_queue_push_def)
qed

theorem C7_refs_written_only_after_commit_witness:
  "ostree_builtin_pull (example_env ''archive-z2'') Map.empty ''origin'' [''main''] =
   (None, [''origin/main'' \<mapsto> example_digest CHR ''a''],
      [Prepare_transaction,
       Run_mainloop (waiting_pull_data\<lparr>metadata_objects_to_scan :=
          Some [PULL_MSG_SCAN (example_digest CHR ''a'', OSTREE_OBJECT_TYPE_COMMIT), PULL_MSG_MAIN_IDLE 1]\<rparr>),
       Commit_transaction None,
       Write_ref ''origin'' ''main'' (example_digest CHR ''a'') None]) \<and>
   is_write_ref (Write_ref ''origin'' ''main'' (example_digest CHR ''a'') None) \<and>
   ostree_builtin_pull
     ((example_env ''archive-z2'')
        \<lparr>run_mainloop_monitor_fetcher := (\<lambda>pull_data. Some (Collaborator_error ''Connection refused''))\<rparr>)
     Map.empty ''origin'' [''main''] =
   (Some (Collaborator_error ''Connection refused''), Map.empty,
      [Prepare_transaction,
       Run_mainloop (waiting_pull_data\<lparr>metadata_objects_to_scan :=
          Some [PULL_MSG_SCAN (example_digest CHR ''a'', OSTREE_OBJECT_TYPE_COMMIT), PULL_MSG_MAIN_IDLE 1]\<rparr>)])"
  using C7_refs_written_only_after_commit [OF example_first_pull]
    C7_refs_written_only_after_commit [OF example_failed_pull]
    example_first_pull example_failed_pull
  by (simp add: is_write_ref_def)

lemma idle_seed_scan:
  "on_metadata_objects_to_scan_ready repo opt_related idle_seed_pull_data =
     (OK, idle_seed_pull_data
        \<lparr>metadata_objects_to_scan := Some [],
         metadata_objects_to_fetch := Some [PULL_MSG_MAIN_IDLE 1, PULL_MSG_SCAN_IDLE 0]\<rparr>)"
  by (simp add: on_metadata_objects_to_scan_ready_def idle_seed_pull_data_def waiting_pull_data_def
        pull_data_init_def ot_waitable_queue_push_def)

lemma idle_seed_fetch:
  "on_metadata_objects_to_fetch_ready
     (idle_seed_pull_data
        \<lparr>metadata_objects_to_scan := Some [],
         metadata_objects_to_fetch := Some [PULL_MSG_MAIN_IDLE 1, PULL_MSG_SCAN_IDLE 0]\<rparr>) =
   Inr (idle_seed_pull_data
        \<lparr>metadata_objects_to_scan := Some [],
         metadata_objects_to_fetch := Some [PULL_MSG_SCAN_IDLE 0],
         metadata_scan_idle := True, loop_quit := True\<rparr>)"
  by (simp add: on_metadata_objects_to_fetch_ready_def ot_waitable_queue_pop_def
        fetch_ready_message_def check_outstanding_requests_handle_error_def throw_async_error_def
        idle_seed_pull_data_def waiting_pull_data_def pull_data_init_def Let_def)

lemma idle_seed_done:
  "loop_quits_with_success
     (idle_seed_pull_data
        \<lparr>metadata_objects_to_scan := Some [],
         metadata_objects_to_fetch := Some [PULL_MSG_SCAN_IDLE 0],
         metadata_scan_idle := True, loop_quit := True\<rparr>)"
  "fetcher
     (idle_seed_pull_data
        \<lparr>metadata_objects_to_scan := Some [],
         metadata_objects_to_fetch := Some [PULL_MSG_SCAN_IDLE 0],
         metadata_scan_idle := True, loop_quit := True\<rparr>) = []"
  "repo_stage_requests
     (idle_seed_pull_data
        \<lparr>metadata_objects_to_scan := Some [],
         metadata_objects_to_fetch := Some [PULL_MSG_SCAN_IDLE 0],
         metadata_scan_idle := True, loop_quit := True\<rparr>) = []"
  by (simp_all add: loop_quits_with_success_def idle_seed_pull_data_def waiting_pull_data_def
        pull_data_init_def)

text \<open>
  Claim C6. In the loop over the requested refs, a ref whose fetched checksum is the
  stored value of \<^verbatim>\<open><remote>/<ref>\<close> changes nothing: no \<^verbatim>\<open>SCAN\<close> is pushed and the
  ref does not enter \<^verbatim>\<open>updated_refs\<close>, so the pull never writes it. Consequently, after
  a pull of branches that returned success, the same pull again (the remote answering as
  before) writes no ref, leaves the refs as they are, and hands to the main loop a scan
  queue with the priming \<^verbatim>\<open>MAIN_IDLE(1)\<close> only; on that queue the scanner pushes no
  \<^verbatim>\<open>FETCH\<close>, and the dispatcher's first message ends the wait with success, with no
  request made to the fetcher and nothing staged.
\<close>

theorem C6_unchanged_refs_are_no_work:
  assumes first: "ostree_builtin_pull env refs remote_name branches = (None, refs1, evs1)"
    and req: "pull_requested env branches = Inr ([], requested)"
  shows
    "(\<forall>refs0 pull_data updated_refs ref sha256 rest.
        ostree_repo_resolve_rev env refs0 (remote_name @ ''/'' @ ref) = Inr (Some sha256) \<longrightarrow>
        pull_seed_refs env refs0 remote_name (pull_data, updated_refs) ((ref, sha256) # rest) =
        pull_seed_refs env refs0 remote_name (pull_data, updated_refs) rest) \<and>
     (\<forall>(ref, sha256) \<in> set requested.
        refs (remote_name @ ''/'' @ ref) = Some sha256 \<longrightarrow>
        (\<forall>c e. Write_ref remote_name ref c e \<notin> set evs1)) \<and>
     (\<exists>r evs2. ostree_builtin_pull env refs1 remote_name branches = (r, refs1, evs2) \<and>
        (\<forall>ev \<in> set evs2. \<not> is_write_ref ev) \<and>
        (\<forall>pull_data. Run_mainloop pull_data \<in> set evs2 \<longrightarrow> pull_data = idle_seed_pull_data)) \<and>
     (\<forall>repo opt_related.
        on_metadata_objects_to_scan_ready repo opt_related idle_seed_pull_data =
          (OK, idle_seed_pull_data
             \<lparr>metadata_objects_to_scan := Some [],
              metadata_objects_to_fetch := Some [PULL_MSG_MAIN_IDLE 1, PULL_MSG_SCAN_IDLE 0]\<rparr>)) \<and>
     (\<exists>pull_data'.
        on_metadata_objects_to_fetch_ready
          (idle_seed_pull_data
             \<lparr>metadata_objects_to_scan := Some [],
              metadata_objects_to_fetch := Some [PULL_MSG_MAIN_IDLE 1, PULL_MSG_SCAN_IDLE 0]\<rparr>) =
          Inr pull_data' \<and>
        loop_quits_with_success pull_data' \<and> fetcher pull_data' = [] \<and>
        repo_stage_requests pull_data' = [])"
proof -
  have a: "pull_seed_refs env refs0 remote_name (pull_data, updated_refs) ((ref, sha256) # rest) =
        pull_seed_refs env refs0 remote_name (pull_data, updated_refs) rest"
    if "ostree_repo_resolve_rev env refs0 (remote_name @ ''/'' @ ref) = Inr (Some sha256)"
    for refs0 pull_data updated_refs ref sha256 rest
    using that by (rule pull_seed_refs_unchanged_step)
  have b: "\<forall>c e. Write_ref remote_name ref c e \<notin> set evs1"
    if "(ref, sha256) \<in> set requested" "refs (remote_name @ ''/'' @ ref) = Some sha256"
    for ref sha256
    using pull_leaves_unchanged_ref [OF first req that] by simp
  have c: "\<exists>r evs2. ostree_builtin_pull env refs1 remote_name branches = (r, refs1, evs2) \<and>
        (\<forall>ev \<in> set evs2. \<not> is_write_ref ev) \<and>
        (\<forall>pull_data. Run_mainloop pull_data \<in> set evs2 \<longrightarrow> pull_data = idle_seed_pull_data)"
    unfolding second_pull_is_idle [OF first req]
    by (cases "run_mainloop_monitor_fetcher env idle_seed_pull_data") (simp_all add: is_write_ref_def)
  have d: "\<exists>pull_data'.
        on_metadata_objects_to_fetch_ready
          (idle_seed_pull_data
             \<lparr>metadata_objects_to_scan := Some [],
              metadata_objects_to_fetch := Some [PULL_MSG_MAIN_IDLE 1, PULL_MSG_SCAN_IDLE 0]\<rparr>) =
          Inr pull_data' \<and>
        loop_quits_with_success pull_data' \<and> fetcher pull_data' = [] \<and>
        repo_stage_requests pull_data' = []"
    using idle_seed_fetch idle_seed_done by blast
  from a b c d idle_seed_scan show ?thesis by blast
qed

theorem C6_unchanged_refs_are_no_work_witness:
  "ostree_builtin_pull (example_env ''archive-z2'') Map.empty ''origin'' [''main''] =
   (None, [''origin/main'' \<mapsto> example_digest CHR ''a''],
      [Prepare_transaction,
       Run_mainloop (waiting_pull_data\<lparr>metadata_objects_to_scan :=
          Some [PULL_MSG_SCAN (example_digest CHR ''a'', OSTREE_OBJECT_TYPE_COMMIT), PULL_MSG_MAIN_IDLE 1]\<rparr>),
       Commit_transaction None,
       Write_ref ''origin'' ''main'' (example_digest CHR ''a'') None]) \<and>
   pull_requested (example_env ''archive-z2'') [''main''] =
     Inr ([], [(''main'', example_digest CHR ''a'')]) \<and>
   ostree_builtin_pull (example_env ''archive-z2'')
     [''origin/main'' \<mapsto> example_digest CHR ''a''] ''origin'' [''main''] =
   (None, [''origin/main'' \<mapsto> example_digest CHR ''a''],
      [Prepare_transaction, Run_mainloop idle_seed_pull_data, Commit_transaction None])"
  using C6_unchanged_refs_are_no_work [OF example_first_pull example_requested]
    second_pull_is_idle [OF example_first_pull example_requested]
    example_first_pull example_requested
  by (simp add: example_env_fields)

subsection \<open>No redundant fetch\<close>

lemma scan_emits_refl: "scan_emits repo pd pd []"
  by (simp add: scan_emits_def option.map_ident)

lemma requested_key_mono:
  "requested_metadata pd \<subseteq> requested_metadata pd' \<Longrightarrow>
   requested_content pd \<subseteq> requested_content pd' \<Longrightarrow>
   requested_key pd k \<Longrightarrow> requested_key pd' k"
  by (auto simp: requested_key_def)

lemma scan_emits_trans:
  assumes a: "scan_emits repo pd pd1 new1" and b: "scan_emits repo pd1 pd2 new2"
  shows "scan_emits repo pd pd2 (new1 @ new2)"
proof -
  have q: "metadata_objects_to_fetch pd2 =
        map_option (\<lambda>q. q @ (new1 @ new2)) (metadata_objects_to_fetch pd)"
    using a b by (simp add: scan_emits_def option.map_comp comp_def)
  have m: "requested_metadata pd \<subseteq> requested_metadata pd2"
    "requested_content pd \<subseteq> requested_content pd2"
    using a b by (auto simp: scan_emits_def)
  have k1: "requested_key pd1 k" if "k' \<in> set new1" "fetch_key k' = Some k" for k k'
    using a that by (auto simp: scan_emits_def)
  have k2: "\<not> requested_key pd1 k" if "k' \<in> set new2" "fetch_key k' = Some k" for k k'
    using b that by (auto simp: scan_emits_def)
  have s1: "\<exists>k. fetch_key m = Some k" if "m \<in> set new1" for m
    using a that by (auto simp: scan_emits_def)
  have disj: "fetch_key ` set new1 \<inter> fetch_key ` set new2 = {}"
  proof (rule ccontr)
    assume "fetch_key ` set new1 \<inter> fetch_key ` set new2 \<noteq> {}"
    then obtain m1 m2 where m: "m1 \<in> set new1" "m2 \<in> set new2" "fetch_key m1 = fetch_key m2"
      by auto
    from s1 [OF m(1)] obtain k where k: "fetch_key m1 = Some k" by blast
    then have k': "fetch_key m2 = Some k" using m(3) by simp
    from k1 [OF m(1) k] k2 [OF m(2) k'] show False by (rule notE [rotated])
  qed
  have d: "distinct (map fetch_key (new1 @ new2))"
    using a b disj by (simp add: scan_emits_def)
  have g: "\<exists>csum objtype.
         m = PULL_MSG_FETCH (csum, objtype) \<and>
         ostree_repo_has_object repo objtype csum = Inr False \<and>
         \<not> requested_key pd (csum, OSTREE_OBJECT_TYPE_IS_META objtype) \<and>
         requested_key pd2 (csum, OSTREE_OBJECT_TYPE_IS_META objtype)"
    if "m \<in> set (new1 @ new2)" for m
  proof (cases "m \<in> set new1")
    case True
    with a obtain csum objtype where
      "m = PULL_MSG_FETCH (csum, objtype)"
      "ostree_repo_has_object repo objtype csum = Inr False"
      "\<not> requested_key pd (csum, OSTREE_OBJECT_TYPE_IS_META objtype)"
      "requested_key pd1 (csum, OSTREE_OBJECT_TYPE_IS_META objtype)"
      by (auto simp: scan_emits_def)
    moreover have "requested_key pd2 (csum, OSTREE_OBJECT_TYPE_IS_META objtype)"
      using b calculation(4) by (auto simp: scan_emits_def intro: requested_key_mono)
    ultimately show ?thesis by blast
  next
    case False
    with that have "m \<in> set new2" by simp
    with b obtain csum objtype where
      "m = PULL_MSG_FETCH (csum, objtype)"
      "ostree_repo_has_object repo objtype csum = Inr False"
      "\<not> requested_key pd1 (csum, OSTREE_OBJECT_TYPE_IS_META objtype)"
      "requested_key pd2 (csum, OSTREE_OBJECT_TYPE_IS_META objtype)"
      by (auto simp: scan_emits_def)
    moreover have "\<not> requested_key pd (csum, OSTREE_OBJECT_TYPE_IS_META objtype)"
      using a calculation(3) by (auto simp: scan_emits_def intro: requested_key_mono)
    ultimately show ?thesis by blast
  qed
  have f: "fetcher pd2 = fetcher pd"
    using a b by (simp add: scan_emits_def)
  from q m f d g show ?thesis by (simp add: scan_emits_def)
qed

lemma scan_grows_refl: "scan_grows repo pd pd"
  using scan_emits_refl by (auto simp: scan_grows_def)

lemma scan_grows_trans:
  "scan_grows repo pd pd1 \<Longrightarrow> scan_grows repo pd1 pd2 \<Longrightarrow> scan_grows repo pd pd2"
  using scan_emits_trans by (fastforce simp: scan_grows_def)

lemma scan_grows_mark: "scan_grows repo pd (mark_scanned pd object)"
  unfolding scan_grows_def
  by (rule exI [of _ "[]"]) (simp add: scan_emits_def mark_scanned_def option.map_ident)

lemma scan_grows_fetch_meta:
  assumes "ostree_repo_has_object repo objtype csum = Inr False"
    and "csum \<notin> requested_metadata pd" and "OSTREE_OBJECT_TYPE_IS_META objtype"
  shows "scan_grows repo pd
           (pd\<lparr>requested_metadata := insert csum (requested_metadata pd),
               metadata_objects_to_fetch :=
                 ot_waitable_queue_push (metadata_objects_to_fetch pd)
                   (PULL_MSG_FETCH (csum, objtype))\<rparr>)"
  unfolding scan_grows_def
  using assms
  by (intro exI [of _ "[PULL_MSG_FETCH (csum, objtype)]"])
     (auto simp: scan_emits_def ot_waitable_queue_push_def requested_key_def)

lemma scan_grows_fetch_content:
  assumes "ostree_repo_has_object repo OSTREE_OBJECT_TYPE_FILE csum = Inr False"
    and "csum \<notin> requested_content pd"
  shows "scan_grows repo pd
           (pd\<lparr>requested_content := insert csum (requested_content pd),
               metadata_objects_to_fetch :=
                 ot_waitable_queue_push (metadata_objects_to_fetch pd)
                   (PULL_MSG_FETCH (csum, OSTREE_OBJECT_TYPE_FILE))\<rparr>)"
  unfolding scan_grows_def
  using assms
  by (intro exI [of _ "[PULL_MSG_FETCH (csum, OSTREE_OBJECT_TYPE_FILE)]"])
     (auto simp: scan_emits_def ot_waitable_queue_push_def requested_key_def
        OSTREE_OBJECT_TYPE_IS_META_def)

lemma scan_dirtree_files_grows:
  "scan_grows repo pd (snd (scan_dirtree_files repo pd files))"
proof (induction files arbitrary: pd)
  case Nil
  show ?case by (simp add: scan_grows_refl)
next
  case (Cons a files)
  obtain filename file_checksum where a: "a = (filename, file_checksum)" by (cases a)
  show ?case
  proof (cases "ot_util_filename_validate filename")
    case False
    with a show ?thesis by (simp add: scan_grows_refl)
  next
    case True
    show ?thesis
    proof (cases "ostree_repo_has_object repo OSTREE_OBJECT_TYPE_FILE file_checksum")
      case (Inl e)
      with a True show ?thesis by (simp add: scan_grows_refl)
    next
      case (Inr file_is_stored)
      show ?thesis
      proof (cases "\<not> file_is_stored \<and> file_checksum \<notin> requested_content pd")
        case False
        with a True Inr Cons.IH [of pd] show ?thesis by auto
      next
        case t: True
        define pd1 where "pd1 = pd
            \<lparr>requested_content := insert file_checksum (requested_content pd),
             metadata_objects_to_fetch :=
               ot_waitable_queue_push (metadata_objects_to_fetch pd)
                 (PULL_MSG_FETCH (file_checksum, OSTREE_OBJECT_TYPE_FILE))\<rparr>"
        have "scan_grows repo pd pd1"
          unfolding pd1_def using t Inr by (intro scan_grows_fetch_content) auto
        from scan_grows_trans [OF this Cons.IH [of pd1]] a True Inr t show ?thesis
          by (simp add: pd1_def)
      qed
    qed
  qed
qed

lemma scan_grows_seq:
  assumes "scan_grows repo pd (snd r)"
    and "\<And>p. r = (OK, p) \<Longrightarrow> scan_grows repo p (snd (f p))"
  shows "scan_grows repo pd
           (snd (case r of (OK, p) \<Rightarrow> f p | (Failed e, p) \<Rightarrow> (Failed e, p)
                         | (Aborted, p) \<Rightarrow> (Aborted, p)))"
proof -
  obtain st p where r: "r = (st, p)" by (cases r)
  show ?thesis
  proof (cases st)
    case OK
    with r assms(1) assms(2) [of p] show ?thesis
      by (auto intro: scan_grows_trans)
  next
    case (Failed e)
    with r assms(1) show ?thesis by simp
  next
    case Aborted
    with r assms(1) show ?thesis by simp
  qed
qed

lemma scan_grows_all:
  "OSTREE_OBJECT_TYPE_IS_META objtype \<longrightarrow>
     scan_grows repo pd (snd (scan_one_metadata_object repo rel pd csum objtype d))"
  "scan_grows repo1 pd1 (snd (scan_commit_object repo1 rel1 pd1 c1 d1))"
  "scan_grows repo2 pd2 (snd (scan_commit_related repo2 rel2 pd2 entries2 d2))"
  "scan_grows repo3 pd3 (snd (scan_dirtree_object repo3 rel3 pd3 c3 d3))"
  "scan_grows repo4 pd4 (snd (scan_dirtree_dirs repo4 rel4 pd4 entries4 d4))"
proof (induction repo rel pd csum objtype d and repo1 rel1 pd1 c1 d1 and repo2 rel2 pd2 entries2 d2
         and repo3 rel3 pd3 c3 d3 and repo4 rel4 pd4 entries4 d4
       rule: scan_one_metadata_object_scan_commit_object_scan_commit_related_scan_dirtree_object_scan_dirtree_dirs.induct)
  case (1 repo opt_related pull_data csum objtype recursion_depth)
  show ?case
  proof
    assume meta: "OSTREE_OBJECT_TYPE_IS_META objtype"
    show "scan_grows repo pull_data
            (snd (scan_one_metadata_object repo opt_related pull_data csum objtype recursion_depth))"
    proof (cases "(csum, objtype) \<in> scanned_metadata pull_data")
      case True
      then show ?thesis
        by (subst scan_one_metadata_object.simps) (simp add: scan_grows_refl)
    next
      case ns: False
      show ?thesis
      proof (cases "ostree_repo_has_object repo objtype csum")
        case (Inl e)
        with ns show ?thesis
          by (subst scan_one_metadata_object.simps) (simp add: scan_grows_refl)
      next
        case (Inr is_stored)
        show ?thesis
        proof (cases is_stored)
          case False
          show ?thesis
          proof (cases "csum \<in> requested_metadata pull_data")
            case True
            with ns Inr False show ?thesis
              by (subst scan_one_metadata_object.simps) (simp add: scan_grows_refl)
          next
            case nr: False
            from scan_grows_fetch_meta [of repo objtype csum pull_data] Inr False nr meta
            have "scan_grows repo pull_data
              (pull_data\<lparr>requested_metadata := insert csum (requested_metadata pull_data),
                 metadata_objects_to_fetch :=
                   ot_waitable_queue_push (metadata_objects_to_fetch pull_data)
                     (PULL_MSG_FETCH (csum, objtype))\<rparr>)"
              by simp
            with ns Inr False nr show ?thesis
              by (subst scan_one_metadata_object.simps) simp
          qed
        next
          case True
          show ?thesis
          proof (cases objtype)
            case OSTREE_OBJECT_TYPE_FILE
            with meta show ?thesis by (simp add: OSTREE_OBJECT_TYPE_IS_META_def)
          next
            case OSTREE_OBJECT_TYPE_DIR_TREE
            from "1.IH"(1) [OF ns refl Inr _ True OSTREE_OBJECT_TYPE_DIR_TREE] True
            have ih: "scan_grows repo pull_data
                    (snd (scan_dirtree_object repo opt_related pull_data csum recursion_depth))"
              by simp
            have "scan_grows repo pull_data
               (snd (case scan_dirtree_object repo opt_related pull_data csum recursion_depth of
                       (OK, p) \<Rightarrow> (OK, mark_scanned p (csum, objtype))
                     | (Failed e, p) \<Rightarrow> (Failed e, p)
                     | (Aborted, p) \<Rightarrow> (Aborted, p)))"
              using ih by (rule scan_grows_seq) (simp add: scan_grows_mark)
            with ns Inr True OSTREE_OBJECT_TYPE_DIR_TREE show ?thesis
              by (subst scan_one_metadata_object.simps) simp
          next
            case OSTREE_OBJECT_TYPE_DIR_META
            with ns Inr True show ?thesis
              by (subst scan_one_metadata_object.simps) (simp add: scan_grows_mark)
          next
            case OSTREE_OBJECT_TYPE_COMMIT
            from "1.IH"(2) [OF ns refl Inr _ True OSTREE_OBJECT_TYPE_COMMIT] True
            have ih: "scan_grows repo pull_data
                    (snd (scan_commit_object repo opt_related pull_data csum recursion_depth))"
              by simp
            have "scan_grows repo pull_data
               (snd (case scan_commit_object repo opt_related pull_data csum recursion_depth of
                       (OK, p) \<Rightarrow> (OK, mark_scanned p (csum, objtype))
                     | (Failed e, p) \<Rightarrow> (Failed e, p)
                     | (Aborted, p) \<Rightarrow> (Aborted, p)))"
              using ih by (rule scan_grows_seq) (simp add: scan_grows_mark)
            with ns Inr True OSTREE_OBJECT_TYPE_COMMIT show ?thesis
              by (subst scan_one_metadata_object.simps) simp
          qed
        qed
      qed
    qed
  qed
next
  case (2 repo opt_related pull_data checksum recursion_depth)
  show ?case
  proof (cases "OSTREE_MAX_RECURSION < uint recursion_depth")
    case True
    then show ?thesis
      by (subst scan_commit_object.simps) (simp add: scan_grows_refl)
  next
    case g: False
    show ?thesis
    proof (cases "ostree_repo_load_commit repo checksum")
      case (Inl e)
      with g show ?thesis
        by (subst scan_commit_object.simps) (simp add: scan_grows_refl)
    next
      case (Inr commit)
      note ih1 = "2.IH"(1) [OF g Inr]
      note ih2 = "2.IH"(2) [OF g Inr]
      note ih3 = "2.IH"(3) [OF g Inr]
      have "scan_grows repo pull_data
        (snd (case scan_one_metadata_object repo opt_related pull_data
                  (commit_tree_contents_csum commit) OSTREE_OBJECT_TYPE_DIR_TREE (recursion_depth + 1) of
             (OK, pull_data) \<Rightarrow>
               (case scan_one_metadata_object repo opt_related pull_data
                       (commit_tree_meta_csum commit) OSTREE_OBJECT_TYPE_DIR_META (recursion_depth + 1) of
                  (OK, pull_data) \<Rightarrow>
                    if opt_related
                    then scan_commit_related repo opt_related pull_data
                           (commit_related commit) (recursion_depth + 1)
                    else (OK, pull_data)
                | (Failed e, pull_data) \<Rightarrow> (Failed e, pull_data)
                | (Aborted, pull_data) \<Rightarrow> (Aborted, pull_data))
           | (Failed e, pull_data) \<Rightarrow> (Failed e, pull_data)
           | (Aborted, pull_data) \<Rightarrow> (Aborted, pull_data)))"
      proof (rule scan_grows_seq)
        show "scan_grows repo pull_data
               (snd (scan_one_metadata_object repo opt_related pull_data
                  (commit_tree_contents_csum commit) OSTREE_OBJECT_TYPE_DIR_TREE (recursion_depth + 1)))"
          using ih1 by (simp add: OSTREE_OBJECT_TYPE_IS_META_def)
      next
        fix p
        assume r1: "scan_one_metadata_object repo opt_related pull_data
                  (commit_tree_contents_csum commit) OSTREE_OBJECT_TYPE_DIR_TREE (recursion_depth + 1) = (OK, p)"
        show "scan_grows repo p
           (snd (case scan_one_metadata_object repo opt_related p
                       (commit_tree_meta_csum commit) OSTREE_OBJECT_TYPE_DIR_META (recursion_depth + 1) of
                  (OK, pull_data) \<Rightarrow>
                    if opt_related
                    then scan_commit_related repo opt_related pull_data
                           (commit_related commit) (recursion_depth + 1)
                    else (OK, pull_data)
                | (Failed e, pull_data) \<Rightarrow> (Failed e, pull_data)
                | (Aborted, pull_data) \<Rightarrow> (Aborted, pull_data)))"
        proof (rule scan_grows_seq)
          show "scan_grows repo p
             (snd (scan_one_metadata_object repo opt_related p
                       (commit_tree_meta_csum commit) OSTREE_OBJECT_TYPE_DIR_META (recursion_depth + 1)))"
            using ih2 [OF r1 [symmetric] refl] by (simp add: OSTREE_OBJECT_TYPE_IS_META_def)
        next
          fix p'
          assume r2: "scan_one_metadata_object repo opt_related p
                       (commit_tree_meta_csum commit) OSTREE_OBJECT_TYPE_DIR_META (recursion_depth + 1) = (OK, p')"
          show "scan_grows repo p'
             (snd (if opt_related
                    then scan_commit_related repo opt_related p'
                           (commit_related commit) (recursion_depth + 1)
                    else (OK, p')))"
            using ih3 [OF r1 [symmetric] refl r2 [symmetric] refl]
            by (simp add: scan_grows_refl)
        qed
      qed
      with g Inr show ?thesis
        by (subst scan_commit_object.simps) simp
    qed
  qed
next
  case (3 repo opt_related pull_data depth1)
  show ?case by (simp add: scan_grows_refl)
next
  case (4 repo opt_related pull_data name csum_v rest depth1)
  have "scan_grows repo pull_data
     (snd (case scan_one_metadata_object repo opt_related pull_data csum_v OSTREE_OBJECT_TYPE_COMMIT depth1 of
        (OK, pull_data) \<Rightarrow> scan_commit_related repo opt_related pull_data rest depth1
      | (Failed e, pull_data) \<Rightarrow> (Failed e, pull_data)
      | (Aborted, pull_data) \<Rightarrow> (Aborted, pull_data)))"
  proof (rule scan_grows_seq)
    show "scan_grows repo pull_data
       (snd (scan_one_metadata_object repo opt_related pull_data csum_v OSTREE_OBJECT_TYPE_COMMIT depth1))"
      using "4.IH"(1) by (simp add: OSTREE_OBJECT_TYPE_IS_META_def)
  next
    fix p
    assume r: "scan_one_metadata_object repo opt_related pull_data csum_v OSTREE_OBJECT_TYPE_COMMIT depth1 = (OK, p)"
    show "scan_grows repo p (snd (scan_commit_related repo opt_related p rest depth1))"
      using "4.IH"(2) [OF r [symmetric] refl] .
  qed
  then show ?case by simp
next
  case (5 repo opt_related pull_data checksum recursion_depth)
  show ?case
  proof (cases "OSTREE_MAX_RECURSION < sint recursion_depth")
    case True
    then show ?thesis
      by (subst scan_dirtree_object.simps) (simp add: scan_grows_refl)
  next
    case g: False
    show ?thesis
    proof (cases "ostree_repo_load_dirtree repo checksum")
      case (Inl e)
      with g show ?thesis
        by (subst scan_dirtree_object.simps) (simp add: scan_grows_refl)
    next
      case (Inr tree)
      have "scan_grows repo pull_data
         (snd (case scan_dirtree_files repo pull_data (tree_files tree) of
             (OK, pull_data) \<Rightarrow>
               scan_dirtree_dirs repo opt_related pull_data (tree_dirs tree) (recursion_depth + 1)
           | (Failed e, pull_data) \<Rightarrow> (Failed e, pull_data)
           | (Aborted, pull_data) \<Rightarrow> (Aborted, pull_data)))"
      proof (rule scan_grows_seq)
        show "scan_grows repo pull_data (snd (scan_dirtree_files repo pull_data (tree_files tree)))"
          by (rule scan_dirtree_files_grows)
      next
        fix p
        assume r: "scan_dirtree_files repo pull_data (tree_files tree) = (OK, p)"
        show "scan_grows repo p
               (snd (scan_dirtree_dirs repo opt_related p (tree_dirs tree) (recursion_depth + 1)))"
          using "5.IH" [OF g Inr r [symmetric] refl] .
      qed
      with g Inr show ?thesis
        by (subst scan_dirtree_object.simps) simp
    qed
  qed
next
  case (6 repo opt_related pull_data depth1)
  show ?case by (simp add: scan_grows_refl)
next
  case (7 repo opt_related pull_data dirname tree_csum meta_csum rest depth1)
  show ?case
  proof (cases "ot_util_filename_validate dirname")
    case False
    then show ?thesis by (simp add: scan_grows_refl)
  next
    case v: True
    then have v': "\<not> \<not> ot_util_filename_validate dirname" by simp
    have "scan_grows repo pull_data
      (snd (case scan_one_metadata_object repo opt_related pull_data tree_csum OSTREE_OBJECT_TYPE_DIR_TREE depth1 of
        (OK, pull_data) \<Rightarrow>
          (case scan_one_metadata_object repo opt_related pull_data meta_csum OSTREE_OBJECT_TYPE_DIR_META depth1 of
             (OK, pull_data) \<Rightarrow> scan_dirtree_dirs repo opt_related pull_data rest depth1
           | (Failed e, pull_data) \<Rightarrow> (Failed e, pull_data)
           | (Aborted, pull_data) \<Rightarrow> (Aborted, pull_data))
      | (Failed e, pull_data) \<Rightarrow> (Failed e, pull_data)
      | (Aborted, pull_data) \<Rightarrow> (Aborted, pull_data)))"
    proof (rule scan_grows_seq)
      show "scan_grows repo pull_data
         (snd (scan_one_metadata_object repo opt_related pull_data tree_csum OSTREE_OBJECT_TYPE_DIR_TREE depth1))"
        using "7.IH"(1) [OF v'] by (simp add: OSTREE_OBJECT_TYPE_IS_META_def)
    next
      fix p
      assume r1: "scan_one_metadata_object repo opt_related pull_data tree_csum OSTREE_OBJECT_TYPE_DIR_TREE depth1 = (OK, p)"
      show "scan_grows repo p
        (snd (case scan_one_metadata_object repo opt_related p meta_csum OSTREE_OBJECT_TYPE_DIR_META depth1 of
             (OK, pull_data) \<Rightarrow> scan_dirtree_dirs repo opt_related pull_data rest depth1
           | (Failed e, pull_data) \<Rightarrow> (Failed e, pull_data)
           | (Aborted, pull_data) \<Rightarrow> (Aborted, pull_data)))"
      proof (rule scan_grows_seq)
        show "scan_grows repo p
          (snd (scan_one_metadata_object repo opt_related p meta_csum OSTREE_OBJECT_TYPE_DIR_META depth1))"
          using "7.IH"(2) [OF v' r1 [symmetric] refl] by (simp add: OSTREE_OBJECT_TYPE_IS_META_def)
      next
        fix p'
        assume r2: "scan_one_metadata_object repo opt_related p meta_csum OSTREE_OBJECT_TYPE_DIR_META depth1 = (OK, p')"
        show "scan_grows repo p' (snd (scan_dirtree_dirs repo opt_related p' rest depth1))"
          using "7.IH"(3) [OF v' r1 [symmetric] refl r2 [symmetric] refl] .
      qed
    qed
    with v show ?thesis by simp
  qed
qed

lemma scan_grows_quit: "scan_grows repo pd (pd\<lparr>metadata_thread_loop_quit := True\<rparr>)"
  unfolding scan_grows_def
  by (rule exI [of _ "[]"]) (simp add: scan_emits_def option.map_ident requested_key_def)

lemma scan_ready_messages_grows:
  assumes "\<forall>object. PULL_MSG_SCAN object \<in> set msgs \<longrightarrow> OSTREE_OBJECT_TYPE_IS_META (snd object)"
  shows "scan_grows repo pd (fst (snd (scan_ready_messages repo rel pd last_idle msgs))) \<and>
         set (snd (snd (snd (scan_ready_messages repo rel pd last_idle msgs)))) \<subseteq> set msgs \<and>
         (\<forall>m. fst (snd (snd (scan_ready_messages repo rel pd last_idle msgs))) = Some m \<longrightarrow>
              fetch_key m = None \<or> last_idle = Some m)"
  using assms
proof (induction msgs arbitrary: pd last_idle)
  case Nil
  show ?case by (simp add: scan_grows_refl)
next
  case (Cons msg msgs)
  have rest: "\<forall>object. PULL_MSG_SCAN object \<in> set msgs \<longrightarrow> OSTREE_OBJECT_TYPE_IS_META (snd object)"
    using Cons.prems by simp
  note ih = Cons.IH [OF rest]
  show ?case
  proof (cases msg)
    case (PULL_MSG_SCAN_IDLE serial)
    then show ?thesis by (auto simp: scan_grows_refl)
  next
    case (PULL_MSG_MAIN_IDLE serial)
    with ih [of pd "Some msg"] show ?thesis by auto
  next
    case (PULL_MSG_FETCH item)
    then show ?thesis by (auto simp: scan_grows_refl)
  next
    case (PULL_MSG_SCAN item)
    have "PULL_MSG_SCAN item \<in> set (msg # msgs)" using PULL_MSG_SCAN by simp
    with Cons.prems have meta: "OSTREE_OBJECT_TYPE_IS_META (snd item)" by blast
    obtain st p where r: "scan_one_metadata_object_v_name repo rel pd item = (st, p)"
      by (cases "scan_one_metadata_object_v_name repo rel pd item")
    have g: "scan_grows repo pd p"
      using scan_grows_all(1) [of "snd item" repo pd rel "fst item" 0] meta r
      by (simp add: scan_one_metadata_object_v_name_def)
    show ?thesis
    proof (cases st)
      case OK
      with PULL_MSG_SCAN r ih [of p last_idle] g show ?thesis
        by (auto intro: scan_grows_trans)
    next
      case (Failed e)
      with PULL_MSG_SCAN r g show ?thesis by auto
    next
      case Aborted
      with PULL_MSG_SCAN r g show ?thesis by auto
    qed
  next
    case PULL_MSG_QUIT
    with ih [of "pd\<lparr>metadata_thread_loop_quit := True\<rparr>" last_idle] show ?thesis
      by (auto intro: scan_grows_trans [OF scan_grows_quit])
  qed
qed

lemma scan_ready_handler:
  assumes h: "on_metadata_objects_to_scan_ready repo rel pd = (st, pd')"
    and i: "scan_queue_is_metadata pd"
  shows "\<exists>pd1 new idle.
           scan_emits repo pd pd1 new \<and>
           metadata_objects_to_fetch pd' =
             map_option (\<lambda>q. q @ new @ idle) (metadata_objects_to_fetch pd) \<and>
           (\<forall>m \<in> set idle. fetch_key m = None) \<and>
           requested_metadata pd' = requested_metadata pd1 \<and>
           requested_content pd' = requested_content pd1 \<and>
           fetcher pd' = fetcher pd \<and>
           scan_queue_is_metadata pd'"
proof -
  define msgs where "msgs = (case metadata_objects_to_scan pd of None \<Rightarrow> [] | Some q \<Rightarrow> q)"
  obtain st1 pd1 last_idle rest where
    r: "scan_ready_messages repo rel pd None msgs = (st1, pd1, last_idle, rest)"
    by (cases "scan_ready_messages repo rel pd None msgs")
  have meta: "\<forall>object. PULL_MSG_SCAN object \<in> set msgs \<longrightarrow> OSTREE_OBJECT_TYPE_IS_META (snd object)"
  proof (cases "metadata_objects_to_scan pd")
    case None
    then show ?thesis by (simp add: msgs_def)
  next
    case (Some q)
    with i show ?thesis by (simp add: msgs_def scan_queue_is_metadata_def)
  qed
  from scan_ready_messages_grows [OF meta, of repo pd rel None] r
  have g: "scan_grows repo pd pd1" and sub: "set rest \<subseteq> set msgs"
    and li: "\<forall>m. last_idle = Some m \<longrightarrow> fetch_key m = None"
    by simp_all
  from g obtain new where e: "scan_emits repo pd pd1 new" by (auto simp: scan_grows_def)
  define pd2 where "pd2 = pd1\<lparr>metadata_objects_to_scan :=
                   map_option (\<lambda>q. rest) (metadata_objects_to_scan pd1)\<rparr>"
  have q2: "scan_queue_is_metadata pd2"
    using meta sub by (auto simp: scan_queue_is_metadata_def pd2_def)
  have f1: "metadata_objects_to_fetch pd1 = map_option (\<lambda>q. q @ new) (metadata_objects_to_fetch pd)"
    using e by (simp add: scan_emits_def)
  have f2: "fetcher pd1 = fetcher pd"
    using e by (simp add: scan_emits_def)
  show ?thesis
  proof (cases st1)
    case OK
    show ?thesis
    proof (cases last_idle)
      case None
      from h r OK None have p: "pd' = pd1
          \<lparr>metadata_objects_to_scan := map_option (\<lambda>q. rest) (metadata_objects_to_scan pd1),
           metadata_objects_to_fetch :=
             ot_waitable_queue_push (metadata_objects_to_fetch pd1) (PULL_MSG_SCAN_IDLE 0)\<rparr>"
        by (simp add: on_metadata_objects_to_scan_ready_def msgs_def [symmetric] Let_def)
      have "metadata_objects_to_fetch pd' =
             map_option (\<lambda>q. q @ new @ [PULL_MSG_SCAN_IDLE 0]) (metadata_objects_to_fetch pd)"
        using f1 by (simp add: p ot_waitable_queue_push_def option.map_comp comp_def)
      moreover have "\<forall>m \<in> set [PULL_MSG_SCAN_IDLE 0]. fetch_key m = None" by simp
      moreover have "requested_metadata pd' = requested_metadata pd1"
        "requested_content pd' = requested_content pd1" "fetcher pd' = fetcher pd"
        by (simp_all add: p f2)
      moreover have "scan_queue_is_metadata pd'"
        using q2 by (simp add: p pd2_def scan_queue_is_metadata_def)
      ultimately show ?thesis using e by blast
    next
      case (Some m)
      from h r OK Some have p: "pd' = pd1
          \<lparr>metadata_objects_to_scan := map_option (\<lambda>q. rest) (metadata_objects_to_scan pd1),
           metadata_objects_to_fetch :=
             ot_waitable_queue_push
               (ot_waitable_queue_push (metadata_objects_to_fetch pd1) m) (PULL_MSG_SCAN_IDLE 0)\<rparr>"
        by (simp add: on_metadata_objects_to_scan_ready_def msgs_def [symmetric] Let_def)
      have "metadata_objects_to_fetch pd' =
             map_option (\<lambda>q. q @ new @ [m, PULL_MSG_SCAN_IDLE 0]) (metadata_objects_to_fetch pd)"
        using f1 by (simp add: p ot_waitable_queue_push_def option.map_comp comp_def)
      moreover have "\<forall>m' \<in> set [m, PULL_MSG_SCAN_IDLE 0]. fetch_key m' = None"
        using li Some by simp
      moreover have "requested_metadata pd' = requested_metadata pd1"
        "requested_content pd' = requested_content pd1" "fetcher pd' = fetcher pd"
        by (simp_all add: p f2)
      moreover have "scan_queue_is_metadata pd'"
        using q2 by (simp add: p pd2_def scan_queue_is_metadata_def)
      ultimately show ?thesis using e by blast
    qed
  next
    case (Failed err)
    with h r have p: "pd' = pd2"
      by (simp add: on_metadata_objects_to_scan_ready_def msgs_def [symmetric] pd2_def Let_def)
    have "metadata_objects_to_fetch pd' =
             map_option (\<lambda>q. q @ new @ []) (metadata_objects_to_fetch pd)"
      using f1 by (simp add: p pd2_def)
    moreover have "requested_metadata pd' = requested_metadata pd1"
      "requested_content pd' = requested_content pd1" "fetcher pd' = fetcher pd"
      by (simp_all add: p pd2_def f2)
    ultimately show ?thesis using e q2 p
      by (intro exI [of _ pd1] exI [of _ new] exI [of _ "[]"]) simp
  next
    case Aborted
    with h r have p: "pd' = pd2"
      by (simp add: on_metadata_objects_to_scan_ready_def msgs_def [symmetric] pd2_def Let_def)
    have "metadata_objects_to_fetch pd' =
             map_option (\<lambda>q. q @ new @ []) (metadata_objects_to_fetch pd)"
      using f1 by (simp add: p pd2_def)
    moreover have "requested_metadata pd' = requested_metadata pd1"
      "requested_content pd' = requested_content pd1" "fetcher pd' = fetcher pd"
      by (simp_all add: p pd2_def f2)
    ultimately show ?thesis using e q2 p
      by (intro exI [of _ pd1] exI [of _ new] exI [of _ "[]"]) simp
  qed
qed

lemma check_frame:
  "requested_metadata (check_outstanding_requests_handle_error pd err) = requested_metadata pd"
  "requested_content (check_outstanding_requests_handle_error pd err) = requested_content pd"
  "metadata_objects_to_scan (check_outstanding_requests_handle_error pd err) = metadata_objects_to_scan pd"
  by (auto simp: check_outstanding_requests_handle_error_def throw_async_error_def Let_def
        split: option.splits)

lemma scan_queue_is_metadata_check:
  "scan_queue_is_metadata (check_outstanding_requests_handle_error pd err) = scan_queue_is_metadata pd"
  by (simp add: scan_queue_is_metadata_def check_frame)

lemma main_loop_dispatch_frame:
  assumes "main_loop_dispatch pd ev = Inr pd'"
  shows "requested_metadata pd' = requested_metadata pd \<and>
         requested_content pd' = requested_content pd \<and>
         (scan_queue_is_metadata pd \<longrightarrow> scan_queue_is_metadata pd')"
proof (cases ev)
  case Fetch_queue_ready
  with assms have s: "on_metadata_objects_to_fetch_ready pd = Inr pd'"
    by (simp add: main_loop_dispatch_def)
  show ?thesis
  proof (cases "ot_waitable_queue_pop (metadata_objects_to_fetch pd)")
    case None
    with s show ?thesis
      by (auto simp: on_metadata_objects_to_fetch_ready_def check_frame scan_queue_is_metadata_check)
  next
    case (Some a)
    obtain msg rest where a: "a = (msg, rest)" by (cases a)
    from s Some a obtain pd1 where
      m: "fetch_ready_message (pd\<lparr>metadata_objects_to_fetch := rest\<rparr>) msg = Inr pd1"
      and p: "pd' = check_outstanding_requests_handle_error pd1 None"
      by (auto simp: on_metadata_objects_to_fetch_ready_def split: sum.splits)
    from m have "requested_metadata pd1 = requested_metadata pd \<and>
         requested_content pd1 = requested_content pd \<and>
         (scan_queue_is_metadata pd \<longrightarrow> scan_queue_is_metadata pd1)"
      by (auto simp: fetch_ready_message_def Let_def scan_queue_is_metadata_def
            ot_waitable_queue_push_def
            split: PullWorkerMessage.splits if_splits option.splits)
    with p show ?thesis by (simp add: check_frame scan_queue_is_metadata_check)
  qed
next
  case (Meta_fetched object r m)
  with assms show ?thesis
    by (auto simp: main_loop_dispatch_def meta_fetch_on_complete_def Let_def
          throw_async_error_def scan_queue_is_metadata_def split: option.splits if_splits)
next
  case (Content_fetched object r m)
  with assms show ?thesis
    by (auto simp: main_loop_dispatch_def content_fetch_on_complete_def Let_def
          check_frame scan_queue_is_metadata_def split: sum.splits if_splits)
next
  case (Metadata_staged object r)
  with assms show ?thesis
    by (auto simp: main_loop_dispatch_def on_metadata_staged_def Let_def
          check_frame scan_queue_is_metadata_def ot_waitable_queue_push_def
          split: sum.splits if_splits option.splits)
next
  case (Content_staged object r)
  with assms show ?thesis
    by (auto simp: main_loop_dispatch_def content_fetch_on_stage_complete_def Let_def
          check_frame scan_queue_is_metadata_def split: sum.splits if_splits)
next
  case (Scan_threw e)
  with assms show ?thesis
    by (auto simp: main_loop_dispatch_def idle_throw_error_def
          throw_async_error_def scan_queue_is_metadata_def split: if_splits)
next
  case Idle_check
  with assms show ?thesis
    by (auto simp: main_loop_dispatch_def idle_check_outstanding_requests_def
          check_frame scan_queue_is_metadata_check)
qed

lemma check_requests_frame:
  "fetcher (check_outstanding_requests_handle_error pd err) = fetcher pd"
  "metadata_objects_to_fetch (check_outstanding_requests_handle_error pd err) =
     metadata_objects_to_fetch pd"
  by (auto simp: check_outstanding_requests_handle_error_def throw_async_error_def Let_def
        split: option.splits)

lemma check_fetch_requests:
  "fetch_requests (check_outstanding_requests_handle_error pd err) = fetch_requests pd"
  by (simp add: fetch_requests_def check_requests_frame)

lemma fetch_ready_message_requests:
  assumes "fetch_ready_message pd msg = Inr pd1"
  shows "fetch_requests pd1 @ queued_fetches (metadata_objects_to_fetch pd1) =
         fetch_requests pd @ queued_fetches (Some [msg]) @ queued_fetches (metadata_objects_to_fetch pd)"
proof (cases msg)
  case (PULL_MSG_SCAN_IDLE serial)
  with assms show ?thesis
    by (auto simp: fetch_ready_message_def fetch_requests_def queued_fetches_def split: if_splits)
next
  case (PULL_MSG_MAIN_IDLE serial)
  with assms show ?thesis
    by (auto simp: fetch_ready_message_def fetch_requests_def queued_fetches_def split: if_splits)
next
  case (PULL_MSG_FETCH item)
  obtain csum objtype where i: "item = (csum, objtype)" by (cases item)
  from assms PULL_MSG_FETCH i show ?thesis
    by (auto simp: fetch_ready_message_def fetch_requests_def queued_fetches_def Let_def
          split: if_splits)
next
  case (PULL_MSG_SCAN item)
  with assms show ?thesis by (simp add: fetch_ready_message_def)
next
  case PULL_MSG_QUIT
  with assms show ?thesis by (simp add: fetch_ready_message_def)
qed

lemma main_loop_dispatch_requests:
  assumes "main_loop_dispatch pd ev = Inr pd'"
  shows "fetch_requests pd' @ queued_fetches (metadata_objects_to_fetch pd') =
         fetch_requests pd @ queued_fetches (metadata_objects_to_fetch pd)"
proof (cases ev)
  case Fetch_queue_ready
  with assms have s: "on_metadata_objects_to_fetch_ready pd = Inr pd'"
    by (simp add: main_loop_dispatch_def)
  show ?thesis
  proof (cases "ot_waitable_queue_pop (metadata_objects_to_fetch pd)")
    case None
    with s show ?thesis
      by (auto simp: on_metadata_objects_to_fetch_ready_def check_requests_frame check_fetch_requests)
  next
    case (Some a)
    obtain msg rest where a: "a = (msg, rest)" by (cases a)
    from s Some a obtain pd1 where
      m: "fetch_ready_message (pd\<lparr>metadata_objects_to_fetch := rest\<rparr>) msg = Inr pd1"
      and p: "pd' = check_outstanding_requests_handle_error pd1 None"
      by (auto simp: on_metadata_objects_to_fetch_ready_def split: sum.splits)
    from Some a obtain q where q: "metadata_objects_to_fetch pd = Some (msg # q)" "rest = Some q"
      by (auto simp: ot_waitable_queue_pop_def split: option.splits list.splits)
    from fetch_ready_message_requests [OF m] q
    have "fetch_requests pd1 @ queued_fetches (metadata_objects_to_fetch pd1) =
          fetch_requests pd @ queued_fetches (Some (msg # q))"
      by (simp add: fetch_requests_def queued_fetches_def)
    with p q show ?thesis by (simp add: check_requests_frame check_fetch_requests)
  qed
next
  case (Meta_fetched object r m)
  with assms show ?thesis
    by (auto simp: main_loop_dispatch_def meta_fetch_on_complete_def Let_def
          throw_async_error_def fetch_requests_def split: option.splits if_splits)
next
  case (Content_fetched object r m)
  with assms show ?thesis
    by (auto simp: main_loop_dispatch_def content_fetch_on_complete_def Let_def
          check_requests_frame check_fetch_requests fetch_requests_def split: sum.splits if_splits)
next
  case (Metadata_staged object r)
  with assms show ?thesis
    by (auto simp: main_loop_dispatch_def on_metadata_staged_def Let_def
          check_requests_frame check_fetch_requests fetch_requests_def
          split: sum.splits if_splits option.splits)
next
  case (Content_staged object r)
  with assms show ?thesis
    by (auto simp: main_loop_dispatch_def content_fetch_on_stage_complete_def Let_def
          check_requests_frame check_fetch_requests fetch_requests_def split: sum.splits if_splits)
next
  case (Scan_threw e)
  with assms show ?thesis
    by (auto simp: main_loop_dispatch_def idle_throw_error_def
          throw_async_error_def fetch_requests_def split: if_splits)
next
  case Idle_check
  with assms show ?thesis
    by (auto simp: main_loop_dispatch_def idle_check_outstanding_requests_def
          check_requests_frame check_fetch_requests)
qed

lemma scan_queue_is_metadata_push:
  "OSTREE_OBJECT_TYPE_IS_META (snd object) \<Longrightarrow> scan_queue_is_metadata pd \<Longrightarrow>
   scan_queue_is_metadata
     (pd\<lparr>metadata_objects_to_scan :=
          ot_waitable_queue_push (metadata_objects_to_scan pd) (PULL_MSG_SCAN object)\<rparr>)"
  by (auto simp: scan_queue_is_metadata_def ot_waitable_queue_push_def)

lemma pull_seed_commits_frame:
  "requested_metadata (pull_seed_commits pd cs) = requested_metadata pd \<and>
   requested_content (pull_seed_commits pd cs) = requested_content pd \<and>
   fetcher (pull_seed_commits pd cs) = fetcher pd \<and>
   metadata_objects_to_fetch (pull_seed_commits pd cs) = metadata_objects_to_fetch pd \<and>
   (scan_queue_is_metadata pd \<longrightarrow> scan_queue_is_metadata (pull_seed_commits pd cs))"
proof (induction cs arbitrary: pd)
  case Nil
  show ?case by simp
next
  case (Cons c cs)
  define pd1 where "pd1 = pd\<lparr>metadata_objects_to_scan :=
          ot_waitable_queue_push (metadata_objects_to_scan pd)
            (PULL_MSG_SCAN (c, OSTREE_OBJECT_TYPE_COMMIT))\<rparr>"
  have "scan_queue_is_metadata pd \<longrightarrow> scan_queue_is_metadata pd1"
    unfolding pd1_def
    by (intro impI scan_queue_is_metadata_push) (simp_all add: OSTREE_OBJECT_TYPE_IS_META_def)
  with Cons.IH [of pd1] show ?case by (simp add: pd1_def)
qed

lemma pull_seed_refs_frame:
  "pull_seed_refs env refs remote_name (pd, acc) requested = Inr (pd', upd) \<Longrightarrow>
   requested_metadata pd' = requested_metadata pd \<and>
   requested_content pd' = requested_content pd \<and>
   fetcher pd' = fetcher pd \<and>
   metadata_objects_to_fetch pd' = metadata_objects_to_fetch pd \<and>
   (scan_queue_is_metadata pd \<longrightarrow> scan_queue_is_metadata pd')"
proof (induction requested arbitrary: pd acc)
  case Nil
  then show ?case by simp
next
  case (Cons a requested)
  obtain ref sha256 where a: "a = (ref, sha256)" by (cases a)
  from Cons.prems a obtain original_rev where
    r: "ostree_repo_resolve_rev env refs (remote_name @ ''/'' @ ref) = Inr original_rev"
    by (auto split: sum.splits)
  show ?case
  proof (cases "original_rev = Some sha256")
    case True
    with Cons.prems a r have
      "pull_seed_refs env refs remote_name (pd, acc) requested = Inr (pd', upd)" by simp
    from Cons.IH [OF this] show ?thesis .
  next
    case False
    define pd1 where "pd1 = pd\<lparr>metadata_objects_to_scan :=
          ot_waitable_queue_push (metadata_objects_to_scan pd)
            (PULL_MSG_SCAN (sha256, OSTREE_OBJECT_TYPE_COMMIT))\<rparr>"
    from False Cons.prems a r have
      "pull_seed_refs env refs remote_name (pd1, g_hash_table_insert acc ref sha256) requested =
         Inr (pd', upd)"
      by (simp add: pd1_def)
    note ih = Cons.IH [OF this]
    have "scan_queue_is_metadata pd \<longrightarrow> scan_queue_is_metadata pd1"
      unfolding pd1_def
      by (intro impI scan_queue_is_metadata_push) (simp_all add: OSTREE_OBJECT_TYPE_IS_META_def)
    with ih show ?thesis by (simp add: pd1_def)
  qed
qed

lemma pull_run_start_state:
  assumes "ostree_builtin_pull env refs remote_name branches = (r, refs', evs)"
    and "Run_mainloop pd \<in> set evs"
  shows "requested_metadata pd = {} \<and> requested_content pd = {} \<and> fetcher pd = [] \<and>
         metadata_objects_to_fetch pd = Some [] \<and> scan_queue_is_metadata pd"
proof -
  define init where "init = pull_data_init
             \<lparr>metadata_objects_to_fetch := Some [], metadata_objects_to_scan := Some []\<rparr>"
  have i: "requested_metadata init = {}" "requested_content init = {}" "scan_queue_is_metadata init"
    "fetcher init = []" "metadata_objects_to_fetch init = Some []"
    by (simp_all add: init_def pull_data_init_def scan_queue_is_metadata_def)
  have seeded: "requested_metadata p = {} \<and> requested_content p = {} \<and> fetcher p = [] \<and>
         metadata_objects_to_fetch p = Some [] \<and> scan_queue_is_metadata p"
    if "pull_seed_refs env refs remote_name (pull_seed_commits init commits, []) requested = Inr (p, upd)"
    for commits requested p upd
    using pull_seed_refs_frame [OF that] pull_seed_commits_frame [of init commits] i by simp
  have primed: "requested_metadata p' = {} \<and> requested_content p' = {} \<and> fetcher p' = [] \<and>
         metadata_objects_to_fetch p' = Some [] \<and> scan_queue_is_metadata p'"
    if "pull_seed_refs env refs remote_name (pull_seed_commits init commits, []) requested = Inr (p, upd)"
      and "p' = p\<lparr>idle_serial := idle_serial p + 1,
                 metadata_objects_to_scan :=
                    ot_waitable_queue_push (metadata_objects_to_scan p)
                      (PULL_MSG_MAIN_IDLE (idle_serial p + 1))\<rparr>"
    for commits requested p upd p'
    using seeded [OF that(1)] that(2)
    by (auto simp: scan_queue_is_metadata_def ot_waitable_queue_push_def)
  have "\<exists>commits requested p upd.
          pull_seed_refs env refs remote_name (pull_seed_commits init commits, []) requested = Inr (p, upd) \<and>
          pd = p\<lparr>idle_serial := idle_serial p + 1,
                 metadata_objects_to_scan :=
                    ot_waitable_queue_push (metadata_objects_to_scan p)
                      (PULL_MSG_MAIN_IDLE (idle_serial p + 1))\<rparr>"
  proof (cases "pull_remote_mode env")
    case (Inl e)
    with assms show ?thesis by (auto simp: ostree_builtin_pull_def)
  next
    case m: (Inr mode)
    show ?thesis
    proof (cases "pull_requested env branches")
      case (Inl e)
      with assms m show ?thesis by (auto simp: ostree_builtin_pull_def)
    next
      case (Inr a)
      obtain commits requested where a: "a = (commits, requested)" by (cases a)
      show ?thesis
      proof (cases "prepare_transaction_error env")
        case (Some e)
        with assms m Inr a show ?thesis by (auto simp: ostree_builtin_pull_def)
      next
        case None
        show ?thesis
        proof (cases "pull_seed_refs env refs remote_name (pull_seed_commits init commits, []) requested")
          case (Inl e)
          with assms m Inr a None show ?thesis
            by (auto simp: ostree_builtin_pull_def init_def Let_def)
        next
          case s: (Inr b)
          obtain p upd where b: "b = (p, upd)" by (cases b)
          define p' where "p' = p\<lparr>idle_serial := idle_serial p + 1,
                 metadata_objects_to_scan :=
                    ot_waitable_queue_push (metadata_objects_to_scan p)
                      (PULL_MSG_MAIN_IDLE (idle_serial p + 1))\<rparr>"
          obtain wr wrefs wevs where w: "pull_write_refs env remote_name refs upd = (wr, wrefs, wevs)"
            by (cases "pull_write_refs env remote_name refs upd")
          from pull_write_refs_events [OF w] have nw: "Run_mainloop pd \<notin> set wevs"
            by (auto simp: is_write_ref_def)
          have q: "pull_requested env branches = Inr (commits, requested)"
            using Inr a by simp
          have "evs = [Prepare_transaction, Run_mainloop p'] \<or>
              (\<exists>e. evs = [Prepare_transaction, Run_mainloop p', Commit_transaction (Some e)]) \<or>
              evs = [Prepare_transaction, Run_mainloop p', Commit_transaction None] @ wevs"
          proof (cases "run_mainloop_monitor_fetcher env p'")
            case (Some e)
            with assms(1) m None s b q show ?thesis
              by (auto simp: ostree_builtin_pull_def init_def [symmetric] Let_def p'_def)
          next
            case run: None
            show ?thesis
            proof (cases "commit_transaction_error env")
              case (Some e)
              with run assms(1) m None s b q show ?thesis
                by (auto simp: ostree_builtin_pull_def init_def [symmetric] Let_def p'_def)
            next
              case commit: None
              with run assms(1) m None s b q w show ?thesis
                by (auto simp: ostree_builtin_pull_def init_def [symmetric] Let_def p'_def)
            qed
          qed
          with assms(2) nw have "pd = p'" by auto
          with s b show ?thesis by (auto simp: p'_def)
        qed
      qed
    qed
  qed
  then show ?thesis using primed by blast
qed

lemma pull_run_invariant:
  "pull_run env refs remote_name branches pd log \<Longrightarrow>
     scan_queue_is_metadata pd \<and> distinct (map fetch_key log) \<and>
     (\<forall>m \<in> set log. \<exists>k. fetch_key m = Some k \<and> requested_key pd k) \<and>
     fetch_requests pd @ queued_fetches (metadata_objects_to_fetch pd) = log"
proof (induction rule: pull_run.induct)
  case (start r refs' evs pull_data)
  from pull_run_start_state [OF start] show ?case
    by (simp add: fetch_requests_def queued_fetches_def)
next
  case (scan pull_data log repo opt_related st pull_data' q new)
  from scan.IH have i: "scan_queue_is_metadata pull_data"
    and d: "distinct (map fetch_key log)"
    and k: "\<forall>m \<in> set log. \<exists>k. fetch_key m = Some k \<and> requested_key pull_data k"
    and j: "fetch_requests pull_data @ queued_fetches (metadata_objects_to_fetch pull_data) = log"
    by simp_all
  from scan_ready_handler [OF scan.hyps(2) i] obtain pd1 fetches idle where
    e: "scan_emits repo pull_data pd1 fetches"
    and f: "metadata_objects_to_fetch pull_data' =
             map_option (\<lambda>q. q @ fetches @ idle) (metadata_objects_to_fetch pull_data)"
    and n: "\<forall>m \<in> set idle. fetch_key m = None"
    and rm: "requested_metadata pull_data' = requested_metadata pd1"
    and rc: "requested_content pull_data' = requested_content pd1"
    and fr: "fetcher pull_data' = fetcher pull_data"
    and i': "scan_queue_is_metadata pull_data'"
    by blast
  from f scan.hyps(3,4) have new: "new = fetches @ idle" by simp
  have some: "\<forall>m \<in> set fetches. fetch_key m \<noteq> None"
    using e by (auto simp: scan_emits_def)
  have flt: "filter (\<lambda>m. fetch_key m \<noteq> None) new = fetches"
    using some n by (simp add: new)
  have mono: "requested_key pull_data' k" if "requested_key pull_data k" for k
    using e rm rc that by (auto simp: scan_emits_def requested_key_def)
  have fresh: "\<exists>k. fetch_key m = Some k \<and> \<not> requested_key pull_data k \<and> requested_key pull_data' k"
    if "m \<in> set fetches" for m
  proof -
    from e that obtain csum objtype where
      m: "m = PULL_MSG_FETCH (csum, objtype)"
      and a: "\<not> requested_key pull_data (csum, OSTREE_OBJECT_TYPE_IS_META objtype)"
      and b: "requested_key pd1 (csum, OSTREE_OBJECT_TYPE_IS_META objtype)"
      unfolding scan_emits_def by blast
    from b have "requested_key pull_data' (csum, OSTREE_OBJECT_TYPE_IS_META objtype)"
      by (simp add: requested_key_def rm rc split: if_splits)
    with a m show ?thesis by simp
  qed
  have disj: "fetch_key ` set log \<inter> fetch_key ` set fetches = {}"
  proof (rule ccontr)
    assume "fetch_key ` set log \<inter> fetch_key ` set fetches \<noteq> {}"
    then obtain m1 m2 where m: "m1 \<in> set log" "m2 \<in> set fetches" "fetch_key m1 = fetch_key m2"
      by auto
    from k m(1) obtain k1 where k1: "fetch_key m1 = Some k1" "requested_key pull_data k1" by blast
    from fresh [OF m(2)] obtain k2 where k2: "fetch_key m2 = Some k2" "\<not> requested_key pull_data k2"
      by blast
    from k1(1) k2(1) m(3) have "k1 = k2" by simp
    with k1(2) k2(2) show False by simp
  qed
  have "distinct (map fetch_key (log @ fetches))"
    using d e disj by (simp add: scan_emits_def)
  moreover have "\<exists>k. fetch_key m = Some k \<and> requested_key pull_data' k"
    if "m \<in> set (log @ fetches)" for m
  proof (cases "m \<in> set log")
    case True
    with k obtain k1 where "fetch_key m = Some k1" "requested_key pull_data k1" by blast
    with mono show ?thesis by blast
  next
    case False
    with that have "m \<in> set fetches" by simp
    from fresh [OF this] show ?thesis by blast
  qed
  moreover have "fetch_requests pull_data' @ queued_fetches (metadata_objects_to_fetch pull_data') =
      log @ fetches"
    using j flt scan.hyps(3,4) fr by (simp add: fetch_requests_def queued_fetches_def)
  ultimately show ?case using i' flt by simp
next
  case (main pull_data log ev pull_data')
  from main_loop_dispatch_frame [OF main.hyps(2)] main.IH
  have rm: "requested_metadata pull_data' = requested_metadata pull_data"
    and rc: "requested_content pull_data' = requested_content pull_data"
    and i': "scan_queue_is_metadata pull_data'"
    by simp_all
  have same: "requested_key pull_data' k = requested_key pull_data k" for k
    unfolding requested_key_def rm rc ..
  from main.IH i' main_loop_dispatch_requests [OF main.hyps(2)] show ?case unfolding same by simp
qed

lemma example_digest_eq: "example_digest c = example_digest c' \<longleftrightarrow> c = c'"
  by (simp add: example_digest_def replicate_eq_replicate)

lemma twice_listed_scan:
  "on_metadata_objects_to_scan_ready twice_listed_repo False seeded_pull_data =
     (OK, twice_listed_scanned)"
  by (simp add: on_metadata_objects_to_scan_ready_def seeded_pull_data_def twice_listed_scanned_def
        waiting_pull_data_def
        pull_data_init_def scan_one_metadata_object_v_name_def twice_listed_repo_def mark_scanned_def
        ot_waitable_queue_push_def OSTREE_MAX_RECURSION_def ot_util_filename_validate_def Let_def
        insert_commute example_digest_eq)

lemma twice_listed_fetch_content:
  "main_loop_dispatch twice_listed_scanned Fetch_queue_ready =
     Inr (twice_listed_scanned
       \<lparr>metadata_objects_to_fetch :=
          Some [PULL_MSG_FETCH (example_digest CHR ''d'', OSTREE_OBJECT_TYPE_DIR_TREE),
                PULL_MSG_FETCH (example_digest CHR ''e'', OSTREE_OBJECT_TYPE_DIR_META),
                PULL_MSG_MAIN_IDLE 1, PULL_MSG_SCAN_IDLE 0],
        fetcher :=
          [(Content_fetch_on_complete, (example_digest CHR ''d'', OSTREE_OBJECT_TYPE_FILE))],
        n_outstanding_content_fetches := 1, n_requested_content := 1\<rparr>)"
  by (simp add: main_loop_dispatch_def on_metadata_objects_to_fetch_ready_def ot_waitable_queue_pop_def
        fetch_ready_message_def check_outstanding_requests_handle_error_def throw_async_error_def
        twice_listed_scanned_def waiting_pull_data_def pull_data_init_def Let_def
        OSTREE_OBJECT_TYPE_IS_META_def)

lemma twice_listed_fetch_metadata:
  "main_loop_dispatch
     (twice_listed_scanned
       \<lparr>metadata_objects_to_fetch :=
          Some [PULL_MSG_FETCH (example_digest CHR ''d'', OSTREE_OBJECT_TYPE_DIR_TREE),
                PULL_MSG_FETCH (example_digest CHR ''e'', OSTREE_OBJECT_TYPE_DIR_META),
                PULL_MSG_MAIN_IDLE 1, PULL_MSG_SCAN_IDLE 0],
        fetcher :=
          [(Content_fetch_on_complete, (example_digest CHR ''d'', OSTREE_OBJECT_TYPE_FILE))],
        n_outstanding_content_fetches := 1, n_requested_content := 1\<rparr>)
     Fetch_queue_ready =
   Inr twice_listed_requested"
  by (simp add: main_loop_dispatch_def on_metadata_objects_to_fetch_ready_def ot_waitable_queue_pop_def
        fetch_ready_message_def check_outstanding_requests_handle_error_def throw_async_error_def
        twice_listed_requested_def
        twice_listed_scanned_def waiting_pull_data_def pull_data_init_def Let_def
        OSTREE_OBJECT_TYPE_IS_META_def)

lemma twice_listed_run:
  "pull_run (example_env ''archive-z2'') Map.empty ''origin'' [''main'']
     twice_listed_requested twice_listed_log"
proof -
  let ?env = "example_env ''archive-z2''"
  let ?new = "[PULL_MSG_FETCH (example_digest CHR ''d'', OSTREE_OBJECT_TYPE_FILE),
         PULL_MSG_FETCH (example_digest CHR ''d'', OSTREE_OBJECT_TYPE_DIR_TREE),
         PULL_MSG_FETCH (example_digest CHR ''e'', OSTREE_OBJECT_TYPE_DIR_META),
         PULL_MSG_MAIN_IDLE 1, PULL_MSG_SCAN_IDLE 0]"
  have "Run_mainloop seeded_pull_data \<in>
          set [Prepare_transaction, Run_mainloop seeded_pull_data, Commit_transaction None,
               Write_ref ''origin'' ''main'' (example_digest CHR ''a'') None]"
    by simp
  with example_first_pull [folded seeded_pull_data_def]
  have s: "pull_run ?env Map.empty ''origin'' [''main''] seeded_pull_data []"
    by (rule pull_run.start)
  have q: "metadata_objects_to_fetch seeded_pull_data = Some []"
    by (simp add: seeded_pull_data_def waiting_pull_data_def)
  have q': "metadata_objects_to_fetch twice_listed_scanned = Some ([] @ ?new)"
    by (simp add: twice_listed_scanned_def)
  from pull_run.scan [OF s twice_listed_scan q q']
  have "pull_run ?env Map.empty ''origin'' [''main''] twice_listed_scanned twice_listed_log"
    by (simp add: twice_listed_log_def)
  from pull_run.main [OF pull_run.main [OF this twice_listed_fetch_content] twice_listed_fetch_metadata]
  show ?thesis .
qed

text \<open>
  Claim C4, as amended. Across a single pull run, for every digest \<open>d\<close>, at most one
  metadata \<^verbatim>\<open>FETCH\<close> message and at most one content \<^verbatim>\<open>FETCH\<close> message is ever emitted for
  \<open>d\<close>, and hence at most one object request of each kind goes to the fetcher: the
  \<^verbatim>\<open>FETCH\<close> messages pushed so far have pairwise different keys (checksum and kind), each
  key is in the hash table of its kind, the requests handed to the fetcher are among these
  messages and have pairwise different keys; a run of the scanner's handler pushes a
  \<^verbatim>\<open>FETCH\<close> only for an object the repository has not and whose checksum was not in
  \<^verbatim>\<open>requested_metadata\<close> (a metadata object) or \<^verbatim>\<open>requested_content\<close> (a file), and has
  inserted it there when it returns; the two tables only grow under the scanner and are
  not changed on the main loop.
\<close>

theorem C4_one_fetch_per_digest_and_ledger:
  assumes run: "pull_run env refs remote_name branches pull_data log"
  shows "distinct (map fetch_key log) \<and>
         (\<forall>m \<in> set log. \<exists>k. fetch_key m = Some k \<and> requested_key pull_data k) \<and>
         distinct (map request_key (fetcher pull_data)) \<and>
         set (fetch_requests pull_data) \<subseteq> set log \<and>
         (\<forall>repo opt_related st pull_data'.
            on_metadata_objects_to_scan_ready repo opt_related pull_data = (st, pull_data') \<longrightarrow>
            (\<exists>new idle. scan_handler_emits repo pull_data pull_data' new idle)) \<and>
         (\<forall>ev pull_data'.
            main_loop_dispatch pull_data ev = Inr pull_data' \<longrightarrow>
            requested_metadata pull_data' = requested_metadata pull_data \<and>
            requested_content pull_data' = requested_content pull_data)"
proof -
  from pull_run_invariant [OF run] have i: "scan_queue_is_metadata pull_data"
    and d: "distinct (map fetch_key log)"
    and k: "\<forall>m \<in> set log. \<exists>k. fetch_key m = Some k \<and> requested_key pull_data k"
    and j: "fetch_requests pull_data @ queued_fetches (metadata_objects_to_fetch pull_data) = log"
    by simp_all
  from j have sub: "set (fetch_requests pull_data) \<subseteq> set log" by auto
  have "fetch_key (PULL_MSG_FETCH item) = Some (fst item, OSTREE_OBJECT_TYPE_IS_META (snd item))"
    for item by (cases item) simp
  then have "map fetch_key (fetch_requests pull_data) =
      map (\<lambda>r. Some (request_key r)) (fetcher pull_data)"
    by (simp add: fetch_requests_def request_key_def)
  moreover from d j have "distinct (map fetch_key (fetch_requests pull_data))"
    by (metis distinct_append map_append)
  ultimately have "distinct (map (\<lambda>r. Some (request_key r)) (fetcher pull_data))" by simp
  then have dr: "distinct (map (Some \<circ> request_key) (fetcher pull_data))" by (simp add: comp_def)
  have r: "distinct (map request_key (fetcher pull_data))"
    using dr by (auto simp: distinct_map inj_on_def)
  have h: "\<exists>new idle. scan_handler_emits repo pull_data pull_data' new idle"
    if "on_metadata_objects_to_scan_ready repo opt_related pull_data = (st, pull_data')"
    for repo opt_related st pull_data'
  proof -
    from scan_ready_handler [OF that i] obtain pd1 new idle where
      e: "scan_emits repo pull_data pd1 new"
      and f: "metadata_objects_to_fetch pull_data' =
               map_option (\<lambda>q. q @ new @ idle) (metadata_objects_to_fetch pull_data)"
      and n: "\<forall>m \<in> set idle. fetch_key m = None"
      and rm: "requested_metadata pull_data' = requested_metadata pd1"
      and rc: "requested_content pull_data' = requested_content pd1"
      by blast
    have same: "requested_key pull_data' k = requested_key pd1 k" for k
      unfolding requested_key_def rm rc ..
    from e have "scan_handler_emits repo pull_data pull_data' new idle"
      unfolding scan_handler_emits_def scan_emits_def same rm rc using f n by simp
    then show ?thesis by blast
  qed
  have m: "requested_metadata pull_data' = requested_metadata pull_data \<and>
           requested_content pull_data' = requested_content pull_data"
    if "main_loop_dispatch pull_data ev = Inr pull_data'" for ev pull_data'
    using main_loop_dispatch_frame [OF that] by simp
  from d k r sub h m show ?thesis by blast
qed

text \<open>
  The run of a first pull of \<^verbatim>\<open>main\<close> against the repository whose root tree lists
  \<open>dd...d\<close> twice: three \<^verbatim>\<open>FETCH\<close> messages with different keys, two requests so far.
\<close>

theorem C4_one_fetch_per_digest_and_ledger_witness:
  "pull_run (example_env ''archive-z2'') Map.empty ''origin'' [''main'']
     twice_listed_requested twice_listed_log \<and>
   distinct (map fetch_key twice_listed_log) \<and>
   requested_key twice_listed_requested (example_digest CHR ''d'', False) \<and>
   requested_key twice_listed_requested (example_digest CHR ''d'', True) \<and>
   requested_key twice_listed_requested (example_digest CHR ''e'', True) \<and>
   distinct (map request_key (fetcher twice_listed_requested)) \<and>
   set (fetch_requests twice_listed_requested) \<subseteq> set twice_listed_log"
  using C4_one_fetch_per_digest_and_ledger [OF twice_listed_run] twice_listed_run
  by (auto simp: twice_listed_log_def OSTREE_OBJECT_TYPE_IS_META_def)

text \<open>
  The claim as it was stated, at most one \<^verbatim>\<open>FETCH\<close> and one object request for a digest,
  fails in that run: \<open>dd...d\<close> is fetched as a file and as a directory tree.
\<close>

theorem C4_same_digest_fetched_twice_counterexample:
  "pull_run (example_env ''archive-z2'') Map.empty ''origin'' [''main'']
     twice_listed_requested
     [PULL_MSG_FETCH (example_digest CHR ''d'', OSTREE_OBJECT_TYPE_FILE),
      PULL_MSG_FETCH (example_digest CHR ''d'', OSTREE_OBJECT_TYPE_DIR_TREE),
      PULL_MSG_FETCH (example_digest CHR ''e'', OSTREE_OBJECT_TYPE_DIR_META)] \<and>
   fetcher twice_listed_requested =
     [(Content_fetch_on_complete, (example_digest CHR ''d'', OSTREE_OBJECT_TYPE_FILE)),
      (Meta_fetch_on_complete, (example_digest CHR ''d'', OSTREE_OBJECT_TYPE_DIR_TREE))]"
  using twice_listed_run
  by (simp add: twice_listed_log_def twice_listed_requested_def)

subsection \<open>The recursion bound\<close>

lemma uint_succ_le: "uint (d + 1) \<le> uint d + 1" for d :: guint
  using uint_add_le [of d 1] by simp

lemma sint_small: "sint d = uint d" if "uint d \<le> 257" for d :: guint
proof -
  have "sint d = signed_take_bit 31 (uint d)"
    by (simp add: sint_uint)
  also have "\<dots> = uint d"
  proof (rule signed_take_bit_int_eq_self)
    have "- (2 ^ 31) \<le> (0::int)" by simp
    then show "- (2 ^ 31) \<le> uint d" using uint_ge_0 [of d] by (rule order_trans)
    show "uint d < 2 ^ 31" using that by simp
  qed
  finally show ?thesis .
qed

lemma scan_calls_depth:
  assumes "scan_calls caller callee" and "uint (scan_call_depth caller) \<le> 257"
  shows "uint (scan_call_depth callee) \<le> 257"
  using assms(1) unfolding scan_calls_def
proof (cases rule:
    scan_one_metadata_object_scan_commit_object_scan_commit_related_scan_dirtree_object_scan_dirtree_dirs_rel.cases)
  case (1 repo opt_related pull_data csum objtype recursion_depth x b)
  with assms(2) show ?thesis by (simp add: scan_call_depth_def)
next
  case (2 repo opt_related pull_data csum objtype recursion_depth x b)
  with assms(2) show ?thesis by (simp add: scan_call_depth_def)
next
  case (3 repo opt_related pull_data checksum recursion_depth b)
  with uint_succ_le [of recursion_depth] show ?thesis
    by (simp add: scan_call_depth_def OSTREE_MAX_RECURSION_def)
next
  case (4 repo opt_related pull_data checksum recursion_depth b x y)
  with uint_succ_le [of recursion_depth] show ?thesis
    by (simp add: scan_call_depth_def OSTREE_MAX_RECURSION_def)
next
  case (5 repo opt_related pull_data checksum recursion_depth b x y xa ya)
  with uint_succ_le [of recursion_depth] show ?thesis
    by (simp add: scan_call_depth_def OSTREE_MAX_RECURSION_def)
next
  case (6 repo opt_related pull_data name csum_v rest depth1)
  with assms(2) show ?thesis by (simp add: scan_call_depth_def)
next
  case (7 repo opt_related pull_data name csum_v rest depth1 x y)
  with assms(2) show ?thesis by (simp add: scan_call_depth_def)
next
  case (8 repo opt_related pull_data checksum recursion_depth b x y)
  from 8 assms(2) have u: "uint recursion_depth \<le> 257" by (simp add: scan_call_depth_def)
  from 8 have "sint recursion_depth \<le> 256" by (simp add: OSTREE_MAX_RECURSION_def)
  with sint_small [OF u] have "uint recursion_depth \<le> 256" by simp
  with 8 uint_succ_le [of recursion_depth] show ?thesis
    by (simp add: scan_call_depth_def)
next
  case (9 dirname repo opt_related pull_data tree_csum depth1 meta_csum rest)
  with assms(2) show ?thesis by (simp add: scan_call_depth_def)
next
  case (10 dirname repo opt_related pull_data tree_csum depth1 x y meta_csum rest)
  with assms(2) show ?thesis by (simp add: scan_call_depth_def)
next
  case (11 dirname repo opt_related pull_data tree_csum depth1 x y meta_csum xa ya rest)
  with assms(2) show ?thesis by (simp add: scan_call_depth_def)
qed

lemma scan_calls_reachable_depth:
  assumes "scan_calls\<^sup>*\<^sup>* seed call" and "uint (scan_call_depth seed) \<le> 257"
  shows "uint (scan_call_depth call) \<le> 257"
  using assms
proof (induction rule: rtranclp_induct)
  case base
  then show ?case .
next
  case (step y z)
  from scan_calls_depth [OF step.hyps(2) step.IH [OF step.prems]] show ?case .
qed

lemmas scan_rel_intros =
  scan_one_metadata_object_scan_commit_object_scan_commit_related_scan_dirtree_object_scan_dirtree_dirs_rel.intros

lemma uint_depth_of_nat: "uint (of_nat n :: guint) = int n" if "n \<le> 257"
proof -
  have "n < 2 ^ 32" using that by simp
  then show ?thesis
    by (simp add: uint_nat unat_of_nat take_bit_nat_eq_self)
qed

lemma sint_depth_of_nat: "sint (of_nat n :: guint) = int n" if "n \<le> 257"
  using sint_small [of "of_nat n"] uint_depth_of_nat [OF that] that by simp

lemma looping_calls_step:
  assumes n: "n \<le> 256" and s: "(csum, OSTREE_OBJECT_TYPE_DIR_TREE) \<notin> scanned_metadata pd"
  shows "scan_calls (scan_one_metadata_object_call looping_repo False pd csum OSTREE_OBJECT_TYPE_DIR_TREE (of_nat n))
           (scan_dirtree_object_call looping_repo False pd csum (of_nat n))"
    and "scan_calls (scan_dirtree_object_call looping_repo False pd csum (of_nat n))
           (scan_dirtree_dirs_call looping_repo False pd [(''s'', csum, example_digest CHR ''e'')] (of_nat (Suc n)))"
    and "scan_calls (scan_dirtree_dirs_call looping_repo False pd [(''s'', csum, example_digest CHR ''e'')] (of_nat (Suc n)))
           (scan_one_metadata_object_call looping_repo False pd csum OSTREE_OBJECT_TYPE_DIR_TREE (of_nat (Suc n)))"
proof -
  show "scan_calls (scan_one_metadata_object_call looping_repo False pd csum OSTREE_OBJECT_TYPE_DIR_TREE (of_nat n))
           (scan_dirtree_object_call looping_repo False pd csum (of_nat n))"
    unfolding scan_calls_def scan_one_metadata_object_call_def scan_dirtree_object_call_def
    using s
    by (intro scan_rel_intros(1) [where b = True and x = "csum \<in> requested_metadata pd"])
       (simp_all add: looping_repo_def)
  have d: "\<not> OSTREE_MAX_RECURSION < sint (of_nat n :: guint)"
    using n sint_depth_of_nat [of n] by (simp add: OSTREE_MAX_RECURSION_def)
  from scan_rel_intros(8) [where recursion_depth = "of_nat n :: guint" and repo = looping_repo
      and checksum = csum and b = "\<lparr>tree_files = [], tree_dirs = [(''s'', csum, example_digest CHR ''e'')]\<rparr>"
      and x = OK and y = pd and pull_data = pd and opt_related = False] d
  show "scan_calls (scan_dirtree_object_call looping_repo False pd csum (of_nat n))
           (scan_dirtree_dirs_call looping_repo False pd [(''s'', csum, example_digest CHR ''e'')] (of_nat (Suc n)))"
    unfolding scan_calls_def scan_dirtree_dirs_call_def scan_dirtree_object_call_def
    by (simp add: looping_repo_def add.commute)
  have v: "\<not> \<not> ot_util_filename_validate ''s''"
    by (simp add: ot_util_filename_validate_def)
  show "scan_calls (scan_dirtree_dirs_call looping_repo False pd [(''s'', csum, example_digest CHR ''e'')] (of_nat (Suc n)))
           (scan_one_metadata_object_call looping_repo False pd csum OSTREE_OBJECT_TYPE_DIR_TREE (of_nat (Suc n)))"
    unfolding scan_calls_def scan_dirtree_dirs_call_def scan_one_metadata_object_call_def
    using v by (rule scan_rel_intros(9))
qed

lemma looping_calls_reach:
  assumes s: "(csum, OSTREE_OBJECT_TYPE_DIR_TREE) \<notin> scanned_metadata pd"
  shows "n \<le> 257 \<Longrightarrow>
     scan_calls\<^sup>*\<^sup>*
       (scan_one_metadata_object_call looping_repo False pd csum OSTREE_OBJECT_TYPE_DIR_TREE 0)
       (scan_one_metadata_object_call looping_repo False pd csum OSTREE_OBJECT_TYPE_DIR_TREE (of_nat n))"
proof (induction n)
  case 0
  show ?case by simp
next
  case (Suc n)
  then have n: "n \<le> 256" by simp
  from Suc have ih: "scan_calls\<^sup>*\<^sup>*
       (scan_one_metadata_object_call looping_repo False pd csum OSTREE_OBJECT_TYPE_DIR_TREE 0)
       (scan_one_metadata_object_call looping_repo False pd csum OSTREE_OBJECT_TYPE_DIR_TREE (of_nat n))"
    by simp
  note st = looping_calls_step [OF n s]
  from ih st(1) have "scan_calls\<^sup>*\<^sup>*
       (scan_one_metadata_object_call looping_repo False pd csum OSTREE_OBJECT_TYPE_DIR_TREE 0)
       (scan_dirtree_object_call looping_repo False pd csum (of_nat n))"
    by (rule rtranclp.rtrancl_into_rtrancl)
  from this st(2) have "scan_calls\<^sup>*\<^sup>*
       (scan_one_metadata_object_call looping_repo False pd csum OSTREE_OBJECT_TYPE_DIR_TREE 0)
       (scan_dirtree_dirs_call looping_repo False pd [(''s'', csum, example_digest CHR ''e'')] (of_nat (Suc n)))"
    by (rule rtranclp.rtrancl_into_rtrancl)
  from this st(3) show ?case
    by (rule rtranclp.rtrancl_into_rtrancl)
qed

lemma looping_repo_fields:
  "ostree_repo_has_object looping_repo objtype csum = Inr True"
  "ostree_repo_load_dirtree looping_repo csum =
     Inr \<lparr>tree_files = [], tree_dirs = [(''s'', csum, example_digest CHR ''e'')]\<rparr>"
  by (simp_all add: looping_repo_def)

lemma looping_scan_fails:
  assumes s: "(csum, OSTREE_OBJECT_TYPE_DIR_TREE) \<notin> scanned_metadata pd"
  shows "n \<le> 257 \<Longrightarrow>
     scan_one_metadata_object looping_repo False pd csum OSTREE_OBJECT_TYPE_DIR_TREE (of_nat (257 - n)) =
       (Failed (G_IO_ERROR_FAILED ''Exceeded maximum recursion''), pd)"
proof (induction n)
  case 0
  have "OSTREE_MAX_RECURSION < sint (257 :: guint)" by (simp add: OSTREE_MAX_RECURSION_def)
  then have "scan_dirtree_object looping_repo False pd csum 257 =
      (Failed (G_IO_ERROR_FAILED ''Exceeded maximum recursion''), pd)"
    by (subst scan_dirtree_object.simps) simp
  with s show ?case
    by (subst scan_one_metadata_object.simps) (simp add: looping_repo_fields)
next
  case (Suc n)
  define m where "m = 257 - Suc n"
  have m: "m \<le> 256" "257 - n = Suc m" using Suc.prems by (simp_all add: m_def)
  define d :: guint where "d = of_nat m"
  define d1 :: guint where "d1 = d + 1"
  have "of_nat (257 - n) = d1" by (simp add: m d1_def d_def)
  with Suc have ih: "scan_one_metadata_object looping_repo False pd csum OSTREE_OBJECT_TYPE_DIR_TREE d1 =
      (Failed (G_IO_ERROR_FAILED ''Exceeded maximum recursion''), pd)"
    by simp
  have g: "\<not> OSTREE_MAX_RECURSION < sint d"
    using m(1) sint_depth_of_nat [of m] by (simp add: OSTREE_MAX_RECURSION_def d_def)
  have dirs: "scan_dirtree_dirs looping_repo False pd [(''s'', csum, example_digest CHR ''e'')] d1 =
      (Failed (G_IO_ERROR_FAILED ''Exceeded maximum recursion''), pd)"
    by (subst scan_dirtree_dirs.simps)
       (simp add: ih ot_util_filename_validate_def del: scan_one_metadata_object.simps)
  have "scan_dirtree_object looping_repo False pd csum d =
      (Failed (G_IO_ERROR_FAILED ''Exceeded maximum recursion''), pd)"
    using g
    by (subst scan_dirtree_object.simps)
       (simp add: looping_repo_fields dirs [unfolded d1_def] del: scan_dirtree_dirs.simps)
  with s have "scan_one_metadata_object looping_repo False pd csum OSTREE_OBJECT_TYPE_DIR_TREE d =
      (Failed (G_IO_ERROR_FAILED ''Exceeded maximum recursion''), pd)"
    by (subst scan_one_metadata_object.simps)
       (simp add: looping_repo_fields del: scan_dirtree_object.simps)
  then show ?case by (simp add: d_def m_def)
qed

lemma looping_scan:
  "scan_one_metadata_object_v_name looping_repo False waiting_pull_data
     (example_digest CHR ''b'', OSTREE_OBJECT_TYPE_DIR_TREE) =
   (Failed (G_IO_ERROR_FAILED ''Exceeded maximum recursion''), waiting_pull_data)"
proof -
  have "(example_digest CHR ''b'', OSTREE_OBJECT_TYPE_DIR_TREE) \<notin> scanned_metadata waiting_pull_data"
    by (simp add: waiting_pull_data_def pull_data_init_def)
  from looping_scan_fails [OF this, of 257] show ?thesis
    by (simp add: scan_one_metadata_object_v_name_def)
qed

text \<open>
  Claim C9, as amended. \<open>scan_commit_object\<close> and \<open>scan_dirtree_object\<close> called with a
  recursion depth greater than \<open>OSTREE_MAX_RECURSION\<close> fail with the error "Exceeded maximum
  recursion" and leave the state as it was; consequently every call made while scanning
  an object that was seeded at depth 0 has a depth of at most \<open>OSTREE_MAX_RECURSION + 1\<close>,
  which as an \<^verbatim>\<open>int\<close> is the same number. The depth \<open>OSTREE_MAX_RECURSION + 1\<close> is reached:
  the test is in the two functions that load an object, and \<open>scan_one_metadata_object\<close>,
  which they call with the depth plus one, has none.
\<close>

theorem C9_recursion_depth_bounded:
  "(OSTREE_MAX_RECURSION < uint recursion_depth \<longrightarrow>
      scan_commit_object repo opt_related pull_data checksum recursion_depth =
        (Failed (G_IO_ERROR_FAILED ''Exceeded maximum recursion''), pull_data)) \<and>
   (OSTREE_MAX_RECURSION < sint recursion_depth \<longrightarrow>
      scan_dirtree_object repo opt_related pull_data checksum recursion_depth =
        (Failed (G_IO_ERROR_FAILED ''Exceeded maximum recursion''), pull_data)) \<and>
   (scan_calls\<^sup>*\<^sup>*
      (scan_one_metadata_object_call repo opt_related pull_data (fst object) (snd object) 0) call \<longrightarrow>
      uint (scan_call_depth call) \<le> OSTREE_MAX_RECURSION + 1 \<and>
      sint (scan_call_depth call) = uint (scan_call_depth call))"
proof (intro conjI impI)
  assume "OSTREE_MAX_RECURSION < uint recursion_depth"
  then show "scan_commit_object repo opt_related pull_data checksum recursion_depth =
        (Failed (G_IO_ERROR_FAILED ''Exceeded maximum recursion''), pull_data)"
    by (subst scan_commit_object.simps) simp
next
  assume "OSTREE_MAX_RECURSION < sint recursion_depth"
  then show "scan_dirtree_object repo opt_related pull_data checksum recursion_depth =
        (Failed (G_IO_ERROR_FAILED ''Exceeded maximum recursion''), pull_data)"
    by (subst scan_dirtree_object.simps) simp
next
  assume r: "scan_calls\<^sup>*\<^sup>*
      (scan_one_metadata_object_call repo opt_related pull_data (fst object) (snd object) 0) call"
  have "uint (scan_call_depth
      (scan_one_metadata_object_call repo opt_related pull_data (fst object) (snd object) 0)) \<le> 257"
    by (simp add: scan_call_depth_def scan_one_metadata_object_call_def)
  from scan_calls_reachable_depth [OF r this]
  have b: "uint (scan_call_depth call) \<le> 257" .
  then show "uint (scan_call_depth call) \<le> OSTREE_MAX_RECURSION + 1"
    by (simp add: OSTREE_MAX_RECURSION_def)
  from sint_small [OF b] show "sint (scan_call_depth call) = uint (scan_call_depth call)" .
qed

text \<open>
  In the repository whose trees contain themselves, the scan of a tree seeded at depth 0
  reaches the call at depth 257, where \<open>scan_dirtree_object\<close> fails; the seeded scan
  returns that error.
\<close>

theorem C9_recursion_depth_bounded_witness:
  "scan_calls\<^sup>*\<^sup>*
     (scan_one_metadata_object_call looping_repo False waiting_pull_data
        (example_digest CHR ''b'') OSTREE_OBJECT_TYPE_DIR_TREE 0)
     (scan_one_metadata_object_call looping_repo False waiting_pull_data
        (example_digest CHR ''b'') OSTREE_OBJECT_TYPE_DIR_TREE 257) \<and>
   uint (257 :: guint) \<le> OSTREE_MAX_RECURSION + 1 \<and>
   OSTREE_MAX_RECURSION < sint (257 :: guint) \<and>
   OSTREE_MAX_RECURSION < uint (257 :: guint) \<and>
   scan_dirtree_object looping_repo False waiting_pull_data (example_digest CHR ''b'') 257 =
     (Failed (G_IO_ERROR_FAILED ''Exceeded maximum recursion''), waiting_pull_data) \<and>
   scan_commit_object looping_repo False waiting_pull_data (example_digest CHR ''b'') 257 =
     (Failed (G_IO_ERROR_FAILED ''Exceeded maximum recursion''), waiting_pull_data) \<and>
   scan_one_metadata_object_v_name looping_repo False waiting_pull_data
     (example_digest CHR ''b'', OSTREE_OBJECT_TYPE_DIR_TREE) =
   (Failed (G_IO_ERROR_FAILED ''Exceeded maximum recursion''), waiting_pull_data)"
proof -
  have s: "(example_digest CHR ''b'', OSTREE_OBJECT_TYPE_DIR_TREE) \<notin> scanned_metadata waiting_pull_data"
    by (simp add: waiting_pull_data_def pull_data_init_def)
  from looping_calls_reach [OF s, of 257]
  have r: "scan_calls\<^sup>*\<^sup>*
     (scan_one_metadata_object_call looping_repo False waiting_pull_data
        (fst (example_digest CHR ''b'', OSTREE_OBJECT_TYPE_DIR_TREE))
        (snd (example_digest CHR ''b'', OSTREE_OBJECT_TYPE_DIR_TREE)) 0)
     (scan_one_metadata_object_call looping_repo False waiting_pull_data
        (example_digest CHR ''b'') OSTREE_OBJECT_TYPE_DIR_TREE 257)"
    by simp
  have g: "OSTREE_MAX_RECURSION < sint (257 :: guint)" "OSTREE_MAX_RECURSION < uint (257 :: guint)"
    by (simp_all add: OSTREE_MAX_RECURSION_def)
  from C9_recursion_depth_bounded [of 257 looping_repo False waiting_pull_data "example_digest CHR ''b''"
      "(example_digest CHR ''b'', OSTREE_OBJECT_TYPE_DIR_TREE)"
      "scan_one_metadata_object_call looping_repo False waiting_pull_data
        (example_digest CHR ''b'') OSTREE_OBJECT_TYPE_DIR_TREE 257"] r g looping_scan
  show ?thesis
    by (simp add: scan_call_depth_def scan_one_metadata_object_call_def)
qed

lemma count_list_replicate: "count_list (replicate n x) y = (if x = y then n else 0)"
  by (induction n) auto

lemma tree_level_digest: "tree_level (level_digest n) = n"
  by (simp add: tree_level_def level_digest_def count_list_replicate)

lemma length_level_digest: "n \<le> 257 \<Longrightarrow> length (level_digest n) = 64"
proof -
  assume "n \<le> 257"
  then have "n div 16 \<le> 16" by simp
  moreover have "n mod 16 \<le> 15" by simp
  ultimately show ?thesis by (simp add: level_digest_def)
qed

lemma deep_repo_fields:
  "ostree_repo_has_object deep_repo OSTREE_OBJECT_TYPE_DIR_TREE (level_digest n) = Inr (n \<le> 256)"
  "ostree_repo_has_object deep_repo OSTREE_OBJECT_TYPE_DIR_META csum = Inr True"
  "ostree_repo_load_dirtree deep_repo (level_digest n) =
     Inr \<lparr>tree_files = [],
          tree_dirs = [(''s'', level_digest (Suc n), example_digest CHR ''e'')]\<rparr>"
  by (simp_all add: deep_repo_def tree_level_digest)

lemma deep_calls_step:
  assumes n: "n \<le> 256" and s: "(level_digest n, OSTREE_OBJECT_TYPE_DIR_TREE) \<notin> scanned_metadata pd"
  shows "scan_calls\<^sup>*\<^sup>*
           (scan_one_metadata_object_call deep_repo False pd (level_digest n) OSTREE_OBJECT_TYPE_DIR_TREE (of_nat n))
           (scan_one_metadata_object_call deep_repo False pd (level_digest (Suc n)) OSTREE_OBJECT_TYPE_DIR_TREE (of_nat (Suc n)))"
proof -
  have a: "scan_calls (scan_one_metadata_object_call deep_repo False pd (level_digest n) OSTREE_OBJECT_TYPE_DIR_TREE (of_nat n))
           (scan_dirtree_object_call deep_repo False pd (level_digest n) (of_nat n))"
    unfolding scan_calls_def scan_one_metadata_object_call_def scan_dirtree_object_call_def
    using s n
    by (intro scan_rel_intros(1) [where b = True and x = "level_digest n \<in> requested_metadata pd"])
       (simp_all add: deep_repo_fields)
  have d: "\<not> OSTREE_MAX_RECURSION < sint (of_nat n :: guint)"
    using n sint_depth_of_nat [of n] by (simp add: OSTREE_MAX_RECURSION_def)
  from scan_rel_intros(8) [where recursion_depth = "of_nat n :: guint" and repo = deep_repo
      and checksum = "level_digest n"
      and b = "\<lparr>tree_files = [], tree_dirs = [(''s'', level_digest (Suc n), example_digest CHR ''e'')]\<rparr>"
      and x = OK and y = pd and pull_data = pd and opt_related = False] d
  have b: "scan_calls (scan_dirtree_object_call deep_repo False pd (level_digest n) (of_nat n))
           (scan_dirtree_dirs_call deep_repo False pd
              [(''s'', level_digest (Suc n), example_digest CHR ''e'')] (of_nat (Suc n)))"
    unfolding scan_calls_def scan_dirtree_dirs_call_def scan_dirtree_object_call_def
    by (simp add: deep_repo_fields add.commute)
  have v: "\<not> \<not> ot_util_filename_validate ''s''"
    by (simp add: ot_util_filename_validate_def)
  have c: "scan_calls (scan_dirtree_dirs_call deep_repo False pd
              [(''s'', level_digest (Suc n), example_digest CHR ''e'')] (of_nat (Suc n)))
           (scan_one_metadata_object_call deep_repo False pd (level_digest (Suc n)) OSTREE_OBJECT_TYPE_DIR_TREE (of_nat (Suc n)))"
    unfolding scan_calls_def scan_dirtree_dirs_call_def scan_one_metadata_object_call_def
    using v by (rule scan_rel_intros(9))
  from a b c show ?thesis by (meson rtranclp.rtrancl_into_rtrancl r_into_rtranclp)
qed

lemma deep_calls_reach:
  assumes s: "scanned_metadata pd = {}"
  shows "n \<le> 257 \<Longrightarrow>
     scan_calls\<^sup>*\<^sup>*
       (scan_one_metadata_object_call deep_repo False pd (level_digest 0) OSTREE_OBJECT_TYPE_DIR_TREE 0)
       (scan_one_metadata_object_call deep_repo False pd (level_digest n) OSTREE_OBJECT_TYPE_DIR_TREE (of_nat n))"
proof (induction n)
  case 0
  show ?case by simp
next
  case (Suc n)
  then have n: "n \<le> 256" by simp
  from Suc have ih: "scan_calls\<^sup>*\<^sup>*
       (scan_one_metadata_object_call deep_repo False pd (level_digest 0) OSTREE_OBJECT_TYPE_DIR_TREE 0)
       (scan_one_metadata_object_call deep_repo False pd (level_digest n) OSTREE_OBJECT_TYPE_DIR_TREE (of_nat n))"
    by simp
  have "(level_digest n, OSTREE_OBJECT_TYPE_DIR_TREE) \<notin> scanned_metadata pd" using s by simp
  from ih deep_calls_step [OF n this] show ?case by (rule rtranclp_trans)
qed

lemma deep_scan_last:
  "scan_one_metadata_object deep_repo False waiting_pull_data (level_digest 257)
     OSTREE_OBJECT_TYPE_DIR_TREE 257 =
   (OK, waiting_pull_data
          \<lparr>requested_metadata := {level_digest 257},
           metadata_objects_to_fetch :=
             Some [PULL_MSG_FETCH (level_digest 257, OSTREE_OBJECT_TYPE_DIR_TREE)]\<rparr>)"
  by (subst scan_one_metadata_object.simps)
     (simp add: deep_repo_fields waiting_pull_data_def pull_data_init_def ot_waitable_queue_push_def
        del: scan_dirtree_object.simps scan_commit_object.simps)

lemma deep_scan_step:
  assumes m: "m \<le> 256"
    and below: "scan_one_metadata_object deep_repo False waiting_pull_data (level_digest (Suc m))
             OSTREE_OBJECT_TYPE_DIR_TREE (of_nat (Suc m)) = (OK, pd1)"
  shows "\<exists>pd'. scan_one_metadata_object deep_repo False waiting_pull_data (level_digest m)
             OSTREE_OBJECT_TYPE_DIR_TREE (of_nat m) = (OK, pd') \<and>
           metadata_objects_to_fetch pd' = metadata_objects_to_fetch pd1"
proof -
  define d :: guint where "d = of_nat m"
  define d1 :: guint where "d1 = d + 1"
  have d1: "of_nat (Suc m) = d1" by (simp add: d1_def d_def)
  define pd2 where "pd2 =
    (if (example_digest CHR ''e'', OSTREE_OBJECT_TYPE_DIR_META) \<in> scanned_metadata pd1 then pd1
     else mark_scanned pd1 (example_digest CHR ''e'', OSTREE_OBJECT_TYPE_DIR_META))"
  have q2: "metadata_objects_to_fetch pd2 = metadata_objects_to_fetch pd1"
    by (simp add: pd2_def mark_scanned_def)
  have meta: "scan_one_metadata_object deep_repo False pd1 (example_digest CHR ''e'')
      OSTREE_OBJECT_TYPE_DIR_META d1 = (OK, pd2)"
    by (subst scan_one_metadata_object.simps)
       (simp add: deep_repo_fields pd2_def
          del: scan_dirtree_object.simps scan_commit_object.simps)
  have tree: "scan_one_metadata_object deep_repo False waiting_pull_data (level_digest (Suc m))
      OSTREE_OBJECT_TYPE_DIR_TREE d1 = (OK, pd1)"
    using below by (simp only: d1)
  have dirs: "scan_dirtree_dirs deep_repo False waiting_pull_data
      [(''s'', level_digest (Suc m), example_digest CHR ''e'')] d1 = (OK, pd2)"
    by (subst scan_dirtree_dirs.simps)
       (simp add: tree meta ot_util_filename_validate_def del: scan_one_metadata_object.simps)
  have g: "\<not> OSTREE_MAX_RECURSION < sint d"
    using m sint_depth_of_nat [of m] by (simp add: OSTREE_MAX_RECURSION_def d_def)
  have w: "scanned_metadata waiting_pull_data = {}"
    by (simp add: waiting_pull_data_def pull_data_init_def)
  have obj: "scan_dirtree_object deep_repo False waiting_pull_data (level_digest m) d = (OK, pd2)"
    using g
    by (subst scan_dirtree_object.simps)
       (simp add: deep_repo_fields dirs [unfolded d1_def] del: scan_dirtree_dirs.simps)
  have "scan_one_metadata_object deep_repo False waiting_pull_data (level_digest m)
      OSTREE_OBJECT_TYPE_DIR_TREE d =
        (OK, mark_scanned pd2 (level_digest m, OSTREE_OBJECT_TYPE_DIR_TREE))"
    using m
    by (subst scan_one_metadata_object.simps)
       (simp add: deep_repo_fields obj w
          del: scan_dirtree_object.simps scan_commit_object.simps)
  moreover have "metadata_objects_to_fetch (mark_scanned pd2 (level_digest m, OSTREE_OBJECT_TYPE_DIR_TREE)) =
      metadata_objects_to_fetch pd1"
    using q2 by (simp add: mark_scanned_def)
  ultimately show ?thesis unfolding d_def by blast
qed

lemma deep_scan_ok:
  "n \<le> 257 \<Longrightarrow>
     \<exists>pd'. scan_one_metadata_object deep_repo False waiting_pull_data (level_digest (257 - n))
             OSTREE_OBJECT_TYPE_DIR_TREE (of_nat (257 - n)) = (OK, pd') \<and>
           metadata_objects_to_fetch pd' =
             Some [PULL_MSG_FETCH (level_digest 257, OSTREE_OBJECT_TYPE_DIR_TREE)]"
proof (induction n)
  case 0
  from deep_scan_last show ?case by simp
next
  case (Suc n)
  define m where "m = 257 - Suc n"
  have m: "m \<le> 256" "257 - n = Suc m" using Suc.prems by (simp_all add: m_def)
  from Suc obtain pd1 where
    "scan_one_metadata_object deep_repo False waiting_pull_data (level_digest (Suc m))
             OSTREE_OBJECT_TYPE_DIR_TREE (of_nat (Suc m)) = (OK, pd1)"
    and q: "metadata_objects_to_fetch pd1 =
             Some [PULL_MSG_FETCH (level_digest 257, OSTREE_OBJECT_TYPE_DIR_TREE)]"
    unfolding m(2) by auto
  from deep_scan_step [OF m(1) this(1)] q show ?case
    unfolding m_def by auto
qed

text \<open>
  The claim as it was stated, a depth that never exceeds \<open>OSTREE_MAX_RECURSION\<close>, fails on
  the chain of trees: the scan of the tree of level 0, seeded at depth 0, calls
  \<open>scan_one_metadata_object\<close> at depth 257 for the tree of level 257, which is not stored;
  that call returns \<^verbatim>\<open>TRUE\<close> having pushed a \<^verbatim>\<open>FETCH\<close>, and so does the whole scan.
\<close>

theorem C9_depth_beyond_bound_counterexample:
  "scan_calls\<^sup>*\<^sup>*
     (scan_one_metadata_object_call deep_repo False waiting_pull_data
        (level_digest 0) OSTREE_OBJECT_TYPE_DIR_TREE 0)
     (scan_one_metadata_object_call deep_repo False waiting_pull_data
        (level_digest 257) OSTREE_OBJECT_TYPE_DIR_TREE 257) \<and>
   OSTREE_MAX_RECURSION < uint (257 :: guint) \<and>
   scan_one_metadata_object deep_repo False waiting_pull_data (level_digest 257)
     OSTREE_OBJECT_TYPE_DIR_TREE 257 =
   (OK, waiting_pull_data
          \<lparr>requested_metadata := {level_digest 257},
           metadata_objects_to_fetch :=
             Some [PULL_MSG_FETCH (level_digest 257, OSTREE_OBJECT_TYPE_DIR_TREE)]\<rparr>) \<and>
   fst (scan_one_metadata_object_v_name deep_repo False waiting_pull_data
          (level_digest 0, OSTREE_OBJECT_TYPE_DIR_TREE)) = OK \<and>
   metadata_objects_to_fetch
     (snd (scan_one_metadata_object_v_name deep_repo False waiting_pull_data
          (level_digest 0, OSTREE_OBJECT_TYPE_DIR_TREE))) =
     Some [PULL_MSG_FETCH (level_digest 257, OSTREE_OBJECT_TYPE_DIR_TREE)]"
proof -
  have s: "scanned_metadata waiting_pull_data = {}"
    by (simp add: waiting_pull_data_def pull_data_init_def)
  from deep_calls_reach [OF s, of 257]
  have r: "scan_calls\<^sup>*\<^sup>*
     (scan_one_metadata_object_call deep_repo False waiting_pull_data
        (level_digest 0) OSTREE_OBJECT_TYPE_DIR_TREE 0)
     (scan_one_metadata_object_call deep_repo False waiting_pull_data
        (level_digest 257) OSTREE_OBJECT_TYPE_DIR_TREE 257)"
    by simp
  have g: "OSTREE_MAX_RECURSION < uint (257 :: guint)"
    by (simp add: OSTREE_MAX_RECURSION_def)
  from deep_scan_ok [of 257] obtain pd' where
    "scan_one_metadata_object deep_repo False waiting_pull_data (level_digest 0)
             OSTREE_OBJECT_TYPE_DIR_TREE 0 = (OK, pd')"
    and "metadata_objects_to_fetch pd' =
             Some [PULL_MSG_FETCH (level_digest 257, OSTREE_OBJECT_TYPE_DIR_TREE)]"
    by auto
  then have o: "fst (scan_one_metadata_object_v_name deep_repo False waiting_pull_data
          (level_digest 0, OSTREE_OBJECT_TYPE_DIR_TREE)) = OK"
    "metadata_objects_to_fetch
     (snd (scan_one_metadata_object_v_name deep_repo False waiting_pull_data
          (level_digest 0, OSTREE_OBJECT_TYPE_DIR_TREE))) =
     Some [PULL_MSG_FETCH (level_digest 257, OSTREE_OBJECT_TYPE_DIR_TREE)]"
    by (simp_all add: scan_one_metadata_object_v_name_def)
  from r g deep_scan_last o show ?thesis by (intro conjI)
qed

end
